theory Spec2Isabelle
  imports Complex_Main "HOL-Library.Word" "HOL-Library.Sublist"
begin

section \<open>C library: characters, decimal conversion, formatted scanning\<close>

text \<open>
  C strings are modelled as \<open>string\<close> values that hold the bytes before the terminating
  NUL. The character classes are those of the "C" locale.
\<close>

definition isspace :: "char \<Rightarrow> bool" where
  "isspace c \<longleftrightarrow> c \<in> set [CHR '' '', CHR 0x09, CHR 0x0A, CHR 0x0B, CHR 0x0C, CHR 0x0D]"

definition isdigit :: "char \<Rightarrow> bool" where
  "isdigit c \<longleftrightarrow> c \<in> set ''0123456789''"

definition digit_value :: "char \<Rightarrow> int" where
  "digit_value c = int (of_char c) - 48"

definition tolower :: "char \<Rightarrow> char" where
  "tolower c = (if c \<in> set ''ABCDEFGHIJKLMNOPQRSTUVWXYZ''
                then char_of (of_char c + (32::nat)) else c)"

text \<open>The value of a run of decimal digits, most significant first.\<close>

definition decimal_value :: "string \<Rightarrow> int" where
  "decimal_value ds = foldl (\<lambda>a c. 10 * a + digit_value c) 0 ds"

text \<open>
  The subject sequence of a \<open>%ld\<close> / \<open>%lld\<close> conversion once white space has been
  skipped: an optional sign, then at least one decimal digit. The result is the value and
  the unread rest; \<open>None\<close> is a matching failure. The value is the mathematical one;
  \<open>saturate\<close> below gives what is stored for it.
\<close>

definition scan_decimal :: "string \<Rightarrow> (int \<times> string) option" where
  "scan_decimal s =
     (let (neg, body) = (case s of
                           [] \<Rightarrow> (False, s)
                         | c # cs \<Rightarrow> if c = CHR ''-'' then (True, cs)
                                     else if c = CHR ''+'' then (False, cs)
                                     else (False, s));
          ds = takeWhile isdigit body
      in if ds = [] then None
         else Some (if neg then - decimal_value ds else decimal_value ds,
                    dropWhile isdigit body))"

text \<open>
  The C library converts the digits of \<open>%ld\<close> and \<open>%lld\<close> as \<open>strtol\<close> and
  \<open>strtoll\<close> do: a value outside the range of the receiving signed type of \<open>bits\<close>
  bits is stored as the nearest bound of that type.
\<close>

definition saturate :: "nat \<Rightarrow> int \<Rightarrow> int" where
  "saturate bits v = max (- (2 ^ (bits - 1))) (min (2 ^ (bits - 1) - 1) v)"

text \<open>
  The directives of the two scan formats of the timestamp manager: an ordinary character,
  a white-space directive, and an integer conversion.
\<close>

datatype directive = Lit char | WS | ConvInt

definition EOF :: int where
  "EOF = - 1"

text \<open>
  An input failure (end of the string) before the first conversion has completed makes
  \<open>sscanf\<close> return \<open>EOF\<close>; otherwise it returns the number of items assigned.
\<close>

definition input_failure :: "int list \<Rightarrow> int \<times> int list" where
  "input_failure vs = (if vs = [] then (EOF, vs) else (int (length vs), vs))"

fun sscanf_run :: "directive list \<Rightarrow> string \<Rightarrow> int list \<Rightarrow> int \<times> int list" where
  "sscanf_run [] s vs = (int (length vs), vs)"
| "sscanf_run (Lit c # ds) s vs =
     (case s of
        [] \<Rightarrow> input_failure vs
      | x # xs \<Rightarrow> if x = c then sscanf_run ds xs vs else (int (length vs), vs))"
| "sscanf_run (WS # ds) s vs = sscanf_run ds (dropWhile isspace s) vs"
| "sscanf_run (ConvInt # ds) s vs =
     (let s' = dropWhile isspace s
      in if s' = [] then input_failure vs
         else (case scan_decimal s' of
                 None \<Rightarrow> (int (length vs), vs)
               | Some (v, rest) \<Rightarrow> sscanf_run ds rest (vs @ [v])))"

definition sscanf :: "string \<Rightarrow> directive list \<Rightarrow> int \<times> int list" where
  "sscanf input fmt = sscanf_run fmt input []"

fun strcasecmp :: "string \<Rightarrow> string \<Rightarrow> int" where
  "strcasecmp [] [] = 0"
| "strcasecmp [] (b # bs) = - int (of_char (tolower b))"
| "strcasecmp (a # as) [] = int (of_char (tolower a))"
| "strcasecmp (a # as) (b # bs) =
     (if tolower a = tolower b then strcasecmp as bs
      else int (of_char (tolower a)) - int (of_char (tolower b)))"

fun strncmp :: "string \<Rightarrow> string \<Rightarrow> nat \<Rightarrow> int" where
  "strncmp a b 0 = 0"
| "strncmp [] [] (Suc n) = 0"
| "strncmp [] (b # bs) (Suc n) = - int (of_char b)"
| "strncmp (a # as) [] (Suc n) = int (of_char a)"
| "strncmp (a # as) (b # bs) (Suc n) =
     (if a = b then strncmp as bs n else int (of_char a) - int (of_char b))"

text \<open>Decimal output of \<open>%d\<close>, \<open>%ld\<close> and \<open>%lld\<close>.\<close>

definition digit_char :: "nat \<Rightarrow> char" where
  "digit_char n = ''0123456789'' ! (n mod 10)"

fun dec_nat :: "nat \<Rightarrow> string" where
  "dec_nat n = (if n < 10 then [digit_char n]
                else dec_nat (n div 10) @ [digit_char (n mod 10)])"

declare dec_nat.simps [simp del]

definition dec_int :: "int \<Rightarrow> string" where
  "dec_int i = (if i < 0 then CHR ''-'' # dec_nat (nat (- i)) else dec_nat (nat i))"

text \<open>\<open>%06ld\<close>: the sign counts towards the minimum field width of six.\<close>

definition dec_int_06 :: "int \<Rightarrow> string" where
  "dec_int_06 i =
     (if i < 0
      then CHR ''-'' # replicate (5 - length (dec_nat (nat (- i)))) CHR ''0'' @ dec_nat (nat (- i))
      else replicate (6 - length (dec_nat (nat i))) CHR ''0'' @ dec_nat (nat i))"

section \<open>Timestamp manager\<close>

text \<open>
  \<open>struct timeval\<close> on the target: a 64-bit \<open>time_t\<close> and a 32-bit \<open>long\<close>. Both fields
  are signed and are read with \<open>sint\<close>.
\<close>

record timeval =
  tv_sec :: "64 word"
  tv_usec :: "32 word"

text \<open>
  What the platform answers to the calls the components make: whether \<open>settimeofday\<close>
  accepts a value, what \<open>gettimeofday\<close> reports (\<open>None\<close> when it fails), and whether
  \<open>malloc\<close> returns memory.
\<close>

record platform =
  settimeofday_ok :: "timeval \<Rightarrow> bool"
  gettimeofday_now :: "timeval option"
  malloc_ok :: bool

definition TIMESTAMP_FORMAT_EXTENDED :: "directive list" where
  "TIMESTAMP_FORMAT_EXTENDED = map Lit ''SYNC_TIME:'' @ [WS, ConvInt, Lit CHR ''.'', ConvInt]"

definition TIMESTAMP_FORMAT_SIMPLE :: "directive list" where
  "TIMESTAMP_FORMAT_SIMPLE = [ConvInt, Lit CHR ''.'', ConvInt]"

record timestamp_parse_result_t =
  seconds :: "64 word"
  microseconds :: "32 word"
  parse_success :: bool

text \<open>A \<open>const char*\<close> argument is a \<open>string option\<close>; \<open>None\<close> is the null pointer.\<close>

definition validate_timestamp_format :: "string option \<Rightarrow> bool" where
  "validate_timestamp_format input_string =
     (case input_string of
        None \<Rightarrow> False
      | Some str \<Rightarrow>
          (let fields_parsed = fst (sscanf str TIMESTAMP_FORMAT_EXTENDED)
           in if fields_parsed > 0 then True
              else fst (sscanf str TIMESTAMP_FORMAT_SIMPLE) > 0))"

text \<open>
  The two scans store through the same pointers, and the second scan runs only when the
  first one assigned nothing, so the fields come from whichever scan assigned last. A
  field that was not assigned keeps its initial zero. A scanned value is stored in the
  width of its field, the 64-bit \<open>long long\<close> and the 32-bit \<open>long\<close> of the target.
\<close>

definition parse_timestamp_string :: "string option \<Rightarrow> timestamp_parse_result_t" where
  "parse_timestamp_string timestamp_str =
     (case timestamp_str of
        None \<Rightarrow> \<lparr>seconds = 0, microseconds = 0, parse_success = False\<rparr>
      | Some str \<Rightarrow>
          (let first_scan = sscanf str TIMESTAMP_FORMAT_EXTENDED;
               (parsed_fields, vals) = (if fst first_scan \<le> 0
                                        then sscanf str TIMESTAMP_FORMAT_SIMPLE
                                        else first_scan);
               sec = (if 1 \<le> length vals then word_of_int (saturate 64 (vals ! 0)) else 0);
               usec = (if 2 \<le> length vals then word_of_int (saturate 32 (vals ! 1)) else 0)
           in if parsed_fields > 0
              then \<lparr>seconds = sec,
                    microseconds = (if sint usec < 0 \<or> sint usec \<ge> 1000000 then 0 else usec),
                    parse_success = True\<rparr>
              else \<lparr>seconds = sec, microseconds = usec, parse_success = False\<rparr>))"

definition get_formatted_timestamp :: "platform \<Rightarrow> string option" where
  "get_formatted_timestamp p =
     (case gettimeofday_now p of
        None \<Rightarrow> (if malloc_ok p then Some ''0.0'' else None)
      | Some current_time \<Rightarrow>
          (if malloc_ok p
           then Some (dec_int (sint (tv_sec current_time)) @ ''.'' @
                      dec_int_06 (sint (tv_usec current_time)))
           else None))"

section \<open>CSI handler configuration\<close>

datatype csi_processing_mode_t = CSI_MODE_RAW_DATA | CSI_MODE_AMPLITUDE | CSI_MODE_PHASE_INFO

definition mode_number :: "csi_processing_mode_t \<Rightarrow> int" where
  "mode_number m = (case m of CSI_MODE_RAW_DATA \<Rightarrow> 1 | CSI_MODE_AMPLITUDE \<Rightarrow> 2
                    | CSI_MODE_PHASE_INFO \<Rightarrow> 3)"

record csi_config_t =
  mode :: csi_processing_mode_t
  device_role :: string
  enable_filtering :: bool
  buffer_size :: int

section \<open>Command processor\<close>

text \<open>
  \<open>command_buffer\<close> holds the bytes stored since the last reset, so \<open>buffer_position\<close>
  is its length. Every later byte of the C array is zero: the array starts zeroed and each
  reset clears all of it.
\<close>

record command_processor_t =
  command_buffer :: string
  commands_processed :: "32 word"
  echo_enabled :: bool

definition buffer_position :: "command_processor_t \<Rightarrow> int" where
  "buffer_position cp = int (length (command_buffer cp))"

definition MAX_COMMAND_LENGTH :: nat where
  "MAX_COMMAND_LENGTH = 512"

text \<open>The C string that starts at the first byte of an array: the bytes before the first NUL.\<close>

definition c_string :: "string \<Rightarrow> string" where
  "c_string bytes = takeWhile (\<lambda>c. c \<noteq> CHR 0x00) bytes"

text \<open>
  The shared state the console commands read and write: the processor, the
  synchronisation flag, the clock value last installed by \<open>settimeofday\<close>, the CSI
  configuration, and what was printed.
\<close>

record console_state =
  g_cmd_processor :: command_processor_t
  time_sync_established :: bool
  system_clock :: timeval
  g_csi_config :: csi_config_t
  stdout :: "string list"

datatype command_type_t =
  CMD_TYPE_UNKNOWN | CMD_TYPE_TIME_SYNC | CMD_TYPE_CSI_CONFIG | CMD_TYPE_SYSTEM_INFO | CMD_TYPE_HELP

definition printf :: "string \<Rightarrow> console_state \<Rightarrow> console_state" where
  "printf text s = s\<lparr>stdout := stdout s @ [text]\<rparr>"

text \<open>The backwards loop of \<open>trim_whitespace\<close>: the index where \<open>end\<close> stops.\<close>

fun trim_end :: "nat \<Rightarrow> string \<Rightarrow> nat" where
  "trim_end 0 str = 0"
| "trim_end (Suc e) str = (if isspace (str ! Suc e) then trim_end e str else Suc e)"

definition trim_whitespace :: "string \<Rightarrow> string" where
  "trim_whitespace str =
     (let moved = dropWhile isspace str
      in if moved = [] then []
         else take (Suc (trim_end (length moved - 1) moved)) moved)"

definition classify_command :: "string option \<Rightarrow> command_type_t" where
  "classify_command command_text =
     (case command_text of
        None \<Rightarrow> CMD_TYPE_UNKNOWN
      | Some text \<Rightarrow>
          (let temp_cmd = trim_whitespace (take (MAX_COMMAND_LENGTH - 1) text)
           in if validate_timestamp_format (Some temp_cmd) then CMD_TYPE_TIME_SYNC
              else if strncmp temp_cmd ''CSI_'' 4 = 0 then CMD_TYPE_CSI_CONFIG
              else if strcasecmp temp_cmd ''help'' = 0 \<or> strcasecmp temp_cmd ''?'' = 0
                   then CMD_TYPE_HELP
              else if strcasecmp temp_cmd ''status'' = 0 \<or> strcasecmp temp_cmd ''info'' = 0
                   then CMD_TYPE_SYSTEM_INFO
              else CMD_TYPE_UNKNOWN))"

definition synchronize_system_time ::
  "platform \<Rightarrow> string option \<Rightarrow> console_state \<Rightarrow> bool \<times> console_state" where
  "synchronize_system_time p timestamp_input s =
     (let parsed_time = parse_timestamp_string timestamp_input
      in if \<not> parse_success parsed_time
         then (False, printf ''Warning: Failed to parse timestamp format\<newline>'' s)
         else (let new_time = \<lparr>tv_sec = seconds parsed_time,
                                tv_usec = microseconds parsed_time\<rparr>
               in if settimeofday_ok p new_time
                  then (True, printf ''System time synchronized successfully\<newline>''
                                (s\<lparr>system_clock := new_time, time_sync_established := True\<rparr>))
                  else (False, printf ''Error: Failed to set system time\<newline>'' s)))"

definition is_time_synchronized :: "console_state \<Rightarrow> bool" where
  "is_time_synchronized s = time_sync_established s"

definition display_help_information :: "console_state \<Rightarrow> console_state" where
  "display_help_information s =
     (printf ''===========================\<newline>\<newline>''
     (printf ''CSI Config: CSI_* commands (future expansion)\<newline>''
     (printf ''Help: help, ?\<newline>''
     (printf ''System Info: status, info\<newline>''
     (printf ''Simple Time: <seconds>.<microseconds>\<newline>''
     (printf ''Time Sync: SYNC_TIME: <seconds>.<microseconds>\<newline>''
     (printf ''\<newline>=== Available Commands ===\<newline>'' s)))))))"

definition display_system_status :: "platform \<Rightarrow> console_state \<Rightarrow> console_state" where
  "display_system_status p s =
     (let s1 = printf ''\<newline>=== System Status ===\<newline>'' s;
          s2 = printf (''Time Synchronized: '' @
                       (if is_time_synchronized s1 then ''Yes'' else ''No'') @ ''\<newline>'') s1;
          s3 = printf (''Commands Processed: '' @
                       dec_int (sint (commands_processed (g_cmd_processor s2))) @ ''\<newline>'') s2;
          s4 = (case get_formatted_timestamp p of
                  None \<Rightarrow> s3
                | Some current_time \<Rightarrow>
                    printf (''Current Timestamp: '' @ current_time @ ''\<newline>'') s3);
          s5 = printf (''CSI Mode: '' @ dec_int (mode_number (mode (g_csi_config s4))) @
                       ''\<newline>'') s4;
          s6 = printf (''Device Role: '' @ device_role (g_csi_config s5) @ ''\<newline>'') s5
      in printf ''====================\<newline>\<newline>'' s6)"

definition execute_classified_command ::
  "platform \<Rightarrow> string \<Rightarrow> command_type_t \<Rightarrow> console_state \<Rightarrow> bool \<times> console_state" where
  "execute_classified_command p command_text cmd_type s =
     (let (command_handled, s') =
            (case cmd_type of
               CMD_TYPE_TIME_SYNC \<Rightarrow>
                 synchronize_system_time p (Some command_text)
                   (printf (''Processing time synchronization: '' @ command_text @ ''\<newline>'') s)
             | CMD_TYPE_HELP \<Rightarrow> (True, display_help_information s)
             | CMD_TYPE_SYSTEM_INFO \<Rightarrow> (True, display_system_status p s)
             | CMD_TYPE_CSI_CONFIG \<Rightarrow>
                 (True, printf (''CSI configuration commands not yet implemented: '' @
                                command_text @ ''\<newline>'') s)
             | CMD_TYPE_UNKNOWN \<Rightarrow>
                 (False, printf ''Type 'help' for available commands\<newline>''
                           (printf (''Unrecognized command: '' @ command_text @ ''\<newline>'') s)))
      in if command_handled
         then (True, s'\<lparr>g_cmd_processor := (g_cmd_processor s')
                          \<lparr>commands_processed := commands_processed (g_cmd_processor s') + 1\<rparr>\<rparr>)
         else (False, s'))"

definition process_received_command :: "platform \<Rightarrow> console_state \<Rightarrow> console_state" where
  "process_received_command p s =
     (let line = c_string (command_buffer (g_cmd_processor s))
      in if length line = 0 then s
         else snd (execute_classified_command p line (classify_command (Some line)) s))"

definition reset_buffer :: "console_state \<Rightarrow> console_state" where
  "reset_buffer s = s\<lparr>g_cmd_processor := (g_cmd_processor s)\<lparr>command_buffer := []\<rparr>\<rparr>"

definition store_byte :: "char \<Rightarrow> console_state \<Rightarrow> console_state" where
  "store_byte c s =
     s\<lparr>g_cmd_processor := (g_cmd_processor s)
         \<lparr>command_buffer := command_buffer (g_cmd_processor s) @ [c]\<rparr>\<rparr>"

text \<open>
  One call of \<open>scan_for_input_data\<close> on the bytes that \<open>fgetc\<close> delivers; the end of the
  list is \<open>EOF\<close>. The loop also ends at a byte \<open>0xFF\<close>, and the bytes behind it stay
  unread until the next call.
\<close>

fun scan_for_input_data :: "platform \<Rightarrow> string \<Rightarrow> console_state \<Rightarrow> console_state" where
  "scan_for_input_data p [] s = s"
| "scan_for_input_data p (input_char # rest) s =
     (if input_char = CHR 0xFF then s
      else if input_char = CHR 0x0A \<or> input_char = CHR 0x0D
           then scan_for_input_data p rest (reset_buffer (process_received_command p s))
      else if buffer_position (g_cmd_processor s) < int MAX_COMMAND_LENGTH - 1
           then scan_for_input_data p rest (store_byte input_char s)
      else scan_for_input_data p rest
             (reset_buffer (printf ''Warning: Command too long, buffer reset\<newline>'' s)))"

section \<open>Access-point application: state, admission filter, ingestion callback\<close>

text \<open>
  The receive-control record of a sample. The pipeline only copies these fields and prints
  each with \<open>%d\<close>, so each is kept as the 32-bit \<open>int\<close> that reaches \<open>snprintf\<close>.
\<close>

record wifi_pkt_rx_ctrl_t =
  rssi :: "32 word"
  rate :: "32 word"
  sig_mode :: "32 word"
  mcs :: "32 word"
  cwb :: "32 word"
  smoothing :: "32 word"
  not_sounding :: "32 word"
  aggregation :: "32 word"
  stbc :: "32 word"
  fec_coding :: "32 word"
  sgi :: "32 word"
  noise_floor :: "32 word"
  ampdu_cnt :: "32 word"
  channel :: "32 word"
  secondary_channel :: "32 word"
  timestamp :: "32 word"
  ant :: "32 word"
  sig_len :: "32 word"
  rx_state :: "32 word"

text \<open>
  A sample as the driver hands it over: \<open>mac\<close> is the six-byte array, \<open>buf\<close> the payload
  of signed bytes (\<open>None\<close> is a null pointer) and \<open>len\<close> its reported length.
\<close>

record wifi_csi_info_t =
  rx_ctrl :: wifi_pkt_rx_ctrl_t
  mac :: "8 word list"
  buf :: "8 word list option"
  len :: "16 word"

datatype log_level = LOG_ERROR | LOG_WARN | LOG_INFO | LOG_DEBUG

text \<open>
  \<open>app_state\<close>, followed by what the application does to its surroundings: the lines it
  logs, the heap blocks it holds (allocated and not yet freed), and the datagrams it hands
  to \<open>sendto\<close> as destination address, port and payload. The queue field holds the
  handles in FIFO order; a handle is modelled by the record it points to, since each record
  has one owner at a time.
\<close>

record application_state =
  csi_data_queue :: "wifi_csi_info_t list"
  target_host_address :: "string option"
  udp_socket_descriptor :: int
  network_ready :: bool
  processed_packets :: "32 word"
  discovered_host_ip :: string
  host_discovered :: bool
  esp_log :: "(log_level \<times> string) list"
  live_blocks :: int
  sendto_calls :: "(string \<times> nat \<times> string) list"

definition ESP_LOG :: "log_level \<Rightarrow> string \<Rightarrow> application_state \<Rightarrow> application_state" where
  "ESP_LOG level text st = st\<lparr>esp_log := esp_log st @ [(level, text)]\<rparr>"

definition CSI_DATA_QUEUE_SIZE :: nat where
  "CSI_DATA_QUEUE_SIZE = 64"

definition HOST_COMMUNICATION_PORT :: nat where
  "HOST_COMMUNICATION_PORT = 9999"

definition authorized_devices :: "string list" where
  "authorized_devices = [''a0:b7:65:5a:08:a5'', ''24:0a:c4:c9:25:d8'']"

definition hex_digit_lower :: "nat \<Rightarrow> char" where
  "hex_digit_lower n = ''0123456789abcdef'' ! (n mod 16)"

definition hex_digit_upper :: "nat \<Rightarrow> char" where
  "hex_digit_upper n = ''0123456789ABCDEF'' ! (n mod 16)"

text \<open>\<open>%02x\<close> and \<open>%02X\<close> of a byte.\<close>

definition hex2_lower :: "8 word \<Rightarrow> string" where
  "hex2_lower b = [hex_digit_lower (unat b div 16), hex_digit_lower (unat b mod 16)]"

definition hex2_upper :: "8 word \<Rightarrow> string" where
  "hex2_upper b = [hex_digit_upper (unat b div 16), hex_digit_upper (unat b mod 16)]"

text \<open>
  The six bytes joined by colons, as stored by \<open>snprintf\<close> into a 20-byte array: at most 19
  characters are kept.
\<close>

definition format_mac :: "(8 word \<Rightarrow> string) \<Rightarrow> 8 word list \<Rightarrow> string" where
  "format_mac hex2 m =
     take 19 (hex2 (m ! 0) @ '':'' @ hex2 (m ! 1) @ '':'' @ hex2 (m ! 2) @ '':'' @
              hex2 (m ! 3) @ '':'' @ hex2 (m ! 4) @ '':'' @ hex2 (m ! 5))"

fun strcmp :: "string \<Rightarrow> string \<Rightarrow> int" where
  "strcmp [] [] = 0"
| "strcmp [] (b # bs) = - int (of_char b)"
| "strcmp (a # as) [] = int (of_char a)"
| "strcmp (a # as) (b # bs) =
     (if a = b then strcmp as bs else int (of_char a) - int (of_char b))"

text \<open>The loop over the authorized devices, and the fall-through behind it.\<close>

fun search_authorized ::
  "string \<Rightarrow> string list \<Rightarrow> application_state \<Rightarrow> bool \<times> application_state" where
  "search_authorized mac_address_string [] st =
     (False, ESP_LOG LOG_DEBUG (''Unauthorized device filtered: '' @ mac_address_string) st)"
| "search_authorized mac_address_string (device # devices) st =
     (if strcmp mac_address_string device = 0
      then (True, ESP_LOG LOG_INFO (''Authorized device detected: '' @ mac_address_string) st)
      else search_authorized mac_address_string devices st)"

definition is_authorized_research_device ::
  "8 word list \<Rightarrow> application_state \<Rightarrow> bool \<times> application_state" where
  "is_authorized_research_device device_mac st =
     search_authorized (format_mac hex2_lower device_mac) authorized_devices st"

text \<open>
  Modelled from the spec: the queue primitive \<open>xQueueSend\<close> with a zero wait, which is not
  part of the sources. Section 4.2 gives its contract: a FIFO of fixed capacity whose
  non-blocking enqueue appends the item when a slot is free and fails, leaving the queue as
  it is, when the queue is full. The capacity is the one \<open>app_main\<close> creates the queue with.
\<close>

definition xQueueSend :: "'a list \<Rightarrow> 'a \<Rightarrow> bool \<times> 'a list" where
  "xQueueSend queue item =
     (if length queue < CSI_DATA_QUEUE_SIZE then (True, queue @ [item]) else (False, queue))"

text \<open>
  The ingestion callback. The two flags say whether the two \<open>malloc\<close> calls return memory.
  The copy holds the \<open>len\<close> bytes that \<open>memcpy\<close> takes from the payload.
\<close>

definition research_csi_data_callback ::
  "wifi_csi_info_t option \<Rightarrow> bool \<Rightarrow> bool \<Rightarrow> application_state \<Rightarrow> application_state" where
  "research_csi_data_callback csi_info record_alloc_ok buffer_alloc_ok st =
     (case csi_info of
        None \<Rightarrow> ESP_LOG LOG_WARN ''Invalid CSI data received'' st
      | Some info \<Rightarrow>
          (case buf info of
             None \<Rightarrow> ESP_LOG LOG_WARN ''Invalid CSI data received'' st
           | Some payload \<Rightarrow>
               (let (authorized, st1) = is_authorized_research_device (mac info) st
                in if \<not> authorized then st1
                   else if \<not> record_alloc_ok
                   then ESP_LOG LOG_ERROR ''Failed to allocate memory for CSI data'' st1
                   else if \<not> buffer_alloc_ok
                   then ESP_LOG LOG_ERROR ''Failed to allocate memory for CSI buffer'' st1
                   else (let csi_copy = info\<lparr>buf := Some (take (unat (len info)) payload)\<rparr>;
                             st2 = st1\<lparr>live_blocks := live_blocks st1 + 2\<rparr>;
                             (sent, queue') = xQueueSend (csi_data_queue st2) csi_copy
                         in if sent then st2\<lparr>csi_data_queue := queue'\<rparr>
                            else ESP_LOG LOG_WARN ''CSI data queue overflow - dropping packet''
                                   (st2\<lparr>live_blocks := live_blocks st2 - 2\<rparr>)))))"

text \<open>The driver invoking the callback once per delivered sample.\<close>

fun deliver_samples ::
  "(wifi_csi_info_t option \<times> bool \<times> bool) list \<Rightarrow> application_state \<Rightarrow> application_state" where
  "deliver_samples [] st = st"
| "deliver_samples ((csi_info, record_alloc_ok, buffer_alloc_ok) # later) st =
     deliver_samples later (research_csi_data_callback csi_info record_alloc_ok buffer_alloc_ok st)"

section \<open>Peer discovery and transmission\<close>

type_synonym esp_err_t = int

definition ESP_OK :: esp_err_t where
  "ESP_OK = 0"

definition ESP_FAIL :: esp_err_t where
  "ESP_FAIL = - 1"

text \<open>
  One entry of the result list of an mDNS query: \<open>addr\<close> is the dotted text that
  \<open>inet_ntoa\<close> gives for the entry's address, \<open>None\<close> when the entry has none.
\<close>

record mdns_result_t =
  addr :: "string option"
  hostname :: "string option"

text \<open>The walk over the result list.\<close>

fun select_host :: "mdns_result_t list \<Rightarrow> application_state \<Rightarrow> application_state" where
  "select_host [] st = st"
| "select_host (current # next) st =
     select_host next
       (case (addr current, hostname current) of
          (Some address, Some name) \<Rightarrow>
            (let st1 = ESP_LOG LOG_INFO (''Found host: '' @ name @ '' at '' @ address) st
             in if \<not> host_discovered st1
                then ESP_LOG LOG_INFO (''Selected host: '' @ address)
                       (st1\<lparr>discovered_host_ip := address, host_discovered := True\<rparr>)
                else st1)
        | _ \<Rightarrow> st)"

text \<open>
  \<open>discover_host_computer\<close>, given what \<open>mdns_query_ptr\<close> answers: its return code and
  the result list (empty when the query timed out without an answer).
\<close>

definition discover_host_computer ::
  "esp_err_t \<times> mdns_result_t list \<Rightarrow> application_state \<Rightarrow> esp_err_t \<times> application_state" where
  "discover_host_computer query st =
     (let st0 = ESP_LOG LOG_INFO ''Searching for host computer via mDNS...'' st
      in if fst query \<noteq> ESP_OK
         then (ESP_FAIL, ESP_LOG LOG_WARN ''mDNS query failed, using broadcast discovery'' st0)
         else (let st1 = select_host (snd query) st0
               in if \<not> host_discovered st1
                  then (ESP_OK,
                        ESP_LOG LOG_INFO (''Using broadcast address: '' @ ''192.168.4.255'')
                          ((ESP_LOG LOG_WARN ''No host computer discovered via mDNS'' st1)
                             \<lparr>discovered_host_ip := ''192.168.4.255'', host_discovered := True\<rparr>))
                  else (ESP_OK, st1)))"

text \<open>One pass of the periodic loop of \<open>mdns_discovery_task\<close>, and a run of passes.\<close>

definition discovery_cycle ::
  "esp_err_t \<times> mdns_result_t list \<Rightarrow> application_state \<Rightarrow> application_state" where
  "discovery_cycle query st =
     (if \<not> host_discovered st then snd (discover_host_computer query st) else st)"

fun discovery_cycles ::
  "(esp_err_t \<times> mdns_result_t list) list \<Rightarrow> application_state \<Rightarrow> application_state" where
  "discovery_cycles [] st = st"
| "discovery_cycles (query # later) st = discovery_cycles later (discovery_cycle query st)"

text \<open>
  \<open>transmit_csi_data\<close>; \<open>bytes_sent\<close> is what \<open>sendto\<close> returns. The call is recorded with
  the address text passed to \<open>inet_addr\<close>.
\<close>

definition transmit_csi_data ::
  "int \<Rightarrow> string \<Rightarrow> application_state \<Rightarrow> esp_err_t \<times> application_state" where
  "transmit_csi_data bytes_sent formatted_data st =
     (if \<not> host_discovered st \<or> udp_socket_descriptor st < 0 then (ESP_FAIL, st)
      else (let st1 = st\<lparr>sendto_calls := sendto_calls st @
                          [(discovered_host_ip st, HOST_COMMUNICATION_PORT, formatted_data)]\<rparr>
            in if bytes_sent < 0
               then (ESP_FAIL, ESP_LOG LOG_ERROR ''UDP transmission failed'' st1)
               else (ESP_OK, st1\<lparr>processed_packets := processed_packets st1 + 1\<rparr>)))"

section \<open>Sample formatting\<close>

text \<open>
  The digits of \<open>%.4f\<close> applied to \<open>sqrt (re * re + im * im)\<close>. The two parts are bytes,
  so the radicand is an integer below \<open>2 ^ 16\<close>; the text is computed exactly as the
  square root rounded to the nearest multiple of \<open>0.0001\<close>, from the integer square root
  of the scaled radicand. \<open>sqrt_bits k n r\<close> settles the \<open>k\<close> low bits of that root.
\<close>

fun sqrt_bits :: "nat \<Rightarrow> nat \<Rightarrow> nat \<Rightarrow> nat" where
  "sqrt_bits 0 n r = r"
| "sqrt_bits (Suc k) n r =
     (if (r + 2 ^ k) * (r + 2 ^ k) \<le> n then sqrt_bits k n (r + 2 ^ k) else sqrt_bits k n r)"

definition amplitude_ten_thousandths :: "int \<Rightarrow> int \<Rightarrow> nat" where
  "amplitude_ten_thousandths re im =
     (sqrt_bits 24 (400000000 * nat (re * re + im * im)) 0 + 1) div 2"

definition fixed4 :: "nat \<Rightarrow> string" where
  "fixed4 d = dec_nat (d div 10000) @ ''.'' @
              replicate (4 - length (dec_nat (d mod 10000))) CHR ''0'' @ dec_nat (d mod 10000)"

definition amplitude_text :: "int \<Rightarrow> int \<Rightarrow> string" where
  "amplitude_text re im = fixed4 (amplitude_ten_thousandths re im) @ '' ''"

datatype fault = Buffer_overrun | Out_of_bounds_read

definition UDP_PAYLOAD_BUFFER_SIZE :: int where
  "UDP_PAYLOAD_BUFFER_SIZE = 4096"

text \<open>
  \<open>snprintf (output_buffer + offset, UDP_PAYLOAD_BUFFER_SIZE - offset, ...)\<close> on the
  zero-filled output buffer. The pair is the C string that the buffer holds and the running
  offset. With room for \<open>n \<ge> 1\<close> bytes the call stores at most \<open>n - 1\<close> characters and
  a NUL at the offset; the buffer's string changes only if the offset lies within it. The
  return value, added to the offset, is the full length of the text. A negative room is a
  huge \<open>size_t\<close>, and the call writes behind the buffer.
\<close>

definition snprintf_at :: "string \<times> int \<Rightarrow> string \<Rightarrow> fault + string \<times> int" where
  "snprintf_at position text =
     (let (out, offset) = position; room = UDP_PAYLOAD_BUFFER_SIZE - offset
      in if room < 0 \<or> offset < 0 then Inl Buffer_overrun
         else if room = 0 then Inr (out, offset + int (length text))
         else Inr (if offset \<le> int (length out)
                   then take (nat offset) out @ take (nat room - 1) text
                   else out,
                   offset + int (length text)))"

text \<open>The loop over the (real, imaginary) pairs of the forwarding task.\<close>

function amplitude_loop ::
  "8 word list \<Rightarrow> int \<Rightarrow> nat \<Rightarrow> string \<times> int \<Rightarrow> fault + string \<times> int" where
  "amplitude_loop data_ptr n i (out, offset) =
     (if i < 64 \<and> int i * 2 + 1 < n \<and> offset < UDP_PAYLOAD_BUFFER_SIZE - 50
      then (if i * 2 + 1 < length data_ptr
            then (case snprintf_at (out, offset)
                         (amplitude_text (sint (data_ptr ! (i * 2)))
                            (sint (data_ptr ! (i * 2 + 1)))) of
                    Inl e \<Rightarrow> Inl e
                  | Inr position \<Rightarrow> amplitude_loop data_ptr n (Suc i) position)
            else Inl Out_of_bounds_read)
      else Inr (out, offset))"
  by pat_completeness auto
termination
  by (relation "measure (\<lambda>(data_ptr, n, i, position). 64 - i)") auto

declare amplitude_loop.simps [simp del]

definition rx_ctrl_fields :: "wifi_pkt_rx_ctrl_t \<Rightarrow> 32 word list" where
  "rx_ctrl_fields c =
     [rssi c, rate c, sig_mode c, mcs c, cwb c, smoothing c, not_sounding c, aggregation c,
      stbc c, fec_coding c, sgi c, noise_floor c, ampdu_cnt c, channel c, secondary_channel c,
      timestamp c, ant c, sig_len c, rx_state c]"

text \<open>
  The text of the first \<open>snprintf\<close> of the forwarding task: tag, role, identity, the
  nineteen control fields, the synchronisation flag, the timestamp and the payload length.
\<close>

definition record_header :: "platform \<Rightarrow> console_state \<Rightarrow> wifi_csi_info_t \<Rightarrow> string" where
  "record_header p s csi_data =
     ''CSI_Data,AP,'' @ format_mac hex2_upper (mac csi_data) @ '','' @
     concat (map (\<lambda>field. dec_int (sint field) @ '','') (rx_ctrl_fields (rx_ctrl csi_data))) @
     dec_int (if is_time_synchronized s then 1 else 0) @ '','' @
     (case get_formatted_timestamp p of None \<Rightarrow> ''0.0'' | Some stamp \<Rightarrow> stamp) @ '','' @
     dec_int (uint (len csi_data)) @ '',[''"

text \<open>
  The formatting part of one pass of \<open>csi_data_processing_task\<close>: the string left in the
  output buffer. A null payload pointer has no readable byte.
\<close>

definition format_csi_record ::
  "platform \<Rightarrow> console_state \<Rightarrow> wifi_csi_info_t \<Rightarrow> fault + string" where
  "format_csi_record p s csi_data =
     (case snprintf_at ([], 0) (record_header p s csi_data) of
        Inl e \<Rightarrow> Inl e
      | Inr start \<Rightarrow>
          (case amplitude_loop (case buf csi_data of None \<Rightarrow> [] | Some bytes \<Rightarrow> bytes)
                  (uint (len csi_data)) 0 start of
             Inl e \<Rightarrow> Inl e
           | Inr position \<Rightarrow>
               (case snprintf_at position '']\<newline>'' of
                  Inl e \<Rightarrow> Inl e
                | Inr (out, offset) \<Rightarrow> Inr out)))"


definition set_csi_processing_mode :: "csi_processing_mode_t \<Rightarrow> console_state \<Rightarrow> console_state" where
  "set_csi_processing_mode new_mode s = s\<lparr>g_csi_config := (g_csi_config s)\<lparr>mode := new_mode\<rparr>\<rparr>"

section \<open>Start-up and the command monitoring loop\<close>










section \<open>Vocabulary of the specification and reference values\<close>

text \<open>
  A text begins with an optionally signed decimal integer, after optional white space.
\<close>

definition begins_with_integer :: "string \<Rightarrow> bool" where
  "begins_with_integer s =
     (case dropWhile isspace s of
        [] \<Rightarrow> False
      | c # cs \<Rightarrow> isdigit c \<or>
                  ((c = CHR ''-'' \<or> c = CHR ''+'') \<and> (case cs of [] \<Rightarrow> False | d # _ \<Rightarrow> isdigit d)))"

text \<open>
  Numeric input of the time-sync protocol: an integer at the start of the text, or behind
  the literal prefix \<open>SYNC_TIME:\<close>.
\<close>

definition numeric_timestamp_input :: "string \<Rightarrow> bool" where
  "numeric_timestamp_input s \<longleftrightarrow>
     begins_with_integer s \<or>
     (prefix ''SYNC_TIME:'' s \<and> begins_with_integer (drop 10 s))"

text \<open>A platform on which every call succeeds, and the console state behind \<open>app_main\<close>'s
  initialisation.\<close>

definition nominal_platform :: platform where
  "nominal_platform =
     \<lparr>settimeofday_ok = (\<lambda>tv. True),
      gettimeofday_now = Some \<lparr>tv_sec = 0, tv_usec = 0\<rparr>,
      malloc_ok = True\<rparr>"

definition boot_console_state :: console_state where
  "boot_console_state =
     \<lparr>g_cmd_processor = \<lparr>command_buffer = [], commands_processed = 0, echo_enabled = True\<rparr>,
      time_sync_established = False,
      system_clock = \<lparr>tv_sec = 0, tv_usec = 0\<rparr>,
      g_csi_config = \<lparr>mode = CSI_MODE_AMPLITUDE, device_role = ''collector'',
                      enable_filtering = True, buffer_size = 128\<rparr>,
      stdout = []\<rparr>"

text \<open>A query result that the walk can select: it has an address and a host name.\<close>

definition usable_result :: "mdns_result_t \<Rightarrow> bool" where
  "usable_result r \<longleftrightarrow> addr r \<noteq> None \<and> hostname r \<noteq> None"

text \<open>
  The application state when the tasks start: the queue exists and is empty, the socket is
  open, no peer is known.
\<close>

definition boot_application_state :: application_state where
  "boot_application_state =
     \<lparr>csi_data_queue = [], target_host_address = None, udp_socket_descriptor = 54,
      network_ready = True, processed_packets = 0, discovered_host_ip = [],
      host_discovered = False, esp_log = [], live_blocks = 0, sendto_calls = []\<rparr>"

text \<open>An answer of a host on the access point's subnet.\<close>

definition host_answer :: mdns_result_t where
  "host_answer = \<lparr>addr = Some ''192.168.4.2'', hostname = Some ''lab-host''\<rparr>"

text \<open>The identities of the allow-list as byte sequences.\<close>

definition allow_list :: "8 word list list" where
  "allow_list = [[0xa0, 0xb7, 0x65, 0x5a, 0x08, 0xa5], [0x24, 0x0a, 0xc4, 0xc9, 0x25, 0xd8]]"

text \<open>
  The copy of a sample that the callback enqueues: the payload cut to the reported length.
\<close>

definition admitted_copy :: "wifi_csi_info_t \<Rightarrow> wifi_csi_info_t" where
  "admitted_copy info =
     (case buf info of
        None \<Rightarrow> info
      | Some payload \<Rightarrow> info\<lparr>buf := Some (take (unat (len info)) payload)\<rparr>)"

text \<open>
  A delivery that reaches the enqueue: a sample with a payload from an allow-listed
  identity, with both allocations succeeding.
\<close>

definition admissible_delivery :: "wifi_csi_info_t option \<times> bool \<times> bool \<Rightarrow> bool" where
  "admissible_delivery e =
     (case e of
        (None, record_alloc_ok, buffer_alloc_ok) \<Rightarrow> False
      | (Some info, record_alloc_ok, buffer_alloc_ok) \<Rightarrow>
          record_alloc_ok \<and> buffer_alloc_ok \<and> buf info \<noteq> None \<and>
          length (mac info) = 6 \<and> mac info \<in> set allow_list)"

text \<open>The number of drops that the log reports.\<close>

definition overflow_drops :: "application_state \<Rightarrow> nat" where
  "overflow_drops st =
     length (filter (\<lambda>entry. entry = (LOG_WARN, ''CSI data queue overflow - dropping packet''))
               (esp_log st))"

text \<open>A sample of research device A with a two-byte payload.\<close>

definition sample_a :: wifi_csi_info_t where
  "sample_a =
     \<lparr>rx_ctrl = \<lparr>rssi = - 60, rate = 11, sig_mode = 1, mcs = 7, cwb = 1, smoothing = 0,
                  not_sounding = 1, aggregation = 0, stbc = 0, fec_coding = 0, sgi = 0,
                  noise_floor = - 95, ampdu_cnt = 0, channel = 6, secondary_channel = 0,
                  timestamp = 123456, ant = 0, sig_len = 100, rx_state = 0\<rparr>,
      mac = [0xa0, 0xb7, 0x65, 0x5a, 0x08, 0xa5],
      buf = Some [3, 4],
      len = 2\<rparr>"

text \<open>The application with sixty-four copies of that sample enqueued.\<close>

definition full_queue_state :: application_state where
  "full_queue_state =
     boot_application_state\<lparr>csi_data_queue := replicate 64 (admitted_copy sample_a),
                             live_blocks := 128\<rparr>"

text \<open>A byte that neither ends a line nor ends the scan.\<close>

definition ordinary_byte :: "char \<Rightarrow> bool" where
  "ordinary_byte c \<longleftrightarrow> c \<noteq> CHR 0xFF \<and> c \<noteq> CHR 0x0A \<and> c \<noteq> CHR 0x0D"

text \<open>The notice printed when the buffer is reset.\<close>

definition overflow_notice :: string where
  "overflow_notice = ''Warning: Command too long, buffer reset\<newline>''"

text \<open>
  What follows the integer of a line is no microsecond part: no further digit, and no
  period followed by an integer.
\<close>

definition no_fraction :: "string \<Rightarrow> bool" where
  "no_fraction trail =
     (case trail of
        [] \<Rightarrow> True
      | c # u \<Rightarrow> \<not> isdigit c \<and> \<not> (c = CHR ''.'' \<and> begins_with_integer u))"

text \<open>The value of an optionally signed run of digits.\<close>

definition signed_value :: "string \<Rightarrow> string \<Rightarrow> int" where
  "signed_value sign ds = (if sign = ''-'' then - decimal_value ds else decimal_value ds)"

text \<open>
  The well-formed commands of the console protocol, read from the trimmed line as the
  classifier reads it. A command word is one of the help and status aliases in any letter
  case. A time-sync line is \<open><sec>.<usec>\<close>, two runs of digits around a period, alone
  or behind the prefix \<open>SYNC_TIME:\<close> and a space. White space around either is allowed.
\<close>

definition command_word :: "string \<Rightarrow> bool" where
  "command_word l \<longleftrightarrow>
     map tolower (trim_whitespace l) \<in> set [''help'', ''?'', ''status'', ''info'']"

definition decimal_pair :: "string \<Rightarrow> bool" where
  "decimal_pair t \<longleftrightarrow>
     takeWhile isdigit t \<noteq> [] \<and>
     (case dropWhile isdigit t of
        [] \<Rightarrow> False
      | c # u \<Rightarrow> c = CHR ''.'' \<and> u \<noteq> [] \<and> list_all isdigit u)"

definition time_sync_line :: "string \<Rightarrow> bool" where
  "time_sync_line l \<longleftrightarrow>
     (let t = trim_whitespace l
      in decimal_pair t \<or> (prefix ''SYNC_TIME: '' t \<and> decimal_pair (drop 11 t)))"

definition well_formed_command :: "string \<Rightarrow> bool" where
  "well_formed_command l \<longleftrightarrow> command_word l \<or> time_sync_line l"

text \<open>
  A line that carries white space in front of the prefix \<open>SYNC_TIME:\<close>: the classifier
  trims it away, the scan of the dispatcher does not.
\<close>

definition padded_sync_time :: "string \<Rightarrow> bool" where
  "padded_sync_time l \<longleftrightarrow>
     prefix ''SYNC_TIME:'' (trim_whitespace l) \<and> \<not> prefix ''SYNC_TIME:'' l"

text \<open>An unknown command is a line that the classifier does not recognise.\<close>

definition unknown_command :: "string \<Rightarrow> bool" where
  "unknown_command l \<longleftrightarrow> classify_command (Some l) = CMD_TYPE_UNKNOWN"

text \<open>
  A line as the console can buffer it: not empty, at most 511 bytes, none of them a line
  terminator, the end-of-scan byte or NUL.
\<close>

definition console_line :: "string \<Rightarrow> bool" where
  "console_line l \<longleftrightarrow>
     l \<noteq> [] \<and> length l \<le> 511 \<and> list_all ordinary_byte l \<and> list_all (\<lambda>c. c \<noteq> CHR 0x00) l"

text \<open>The input stream of a list of lines, each ended by a line feed.\<close>

definition typed_lines :: "string list \<Rightarrow> string" where
  "typed_lines ls = concat (map (\<lambda>l. l @ [CHR 0x0A]) ls)"

text \<open>The number of diagnostics for unrecognised commands on the console.\<close>

definition diagnostics :: "console_state \<Rightarrow> nat" where
  "diagnostics s =
     length (filter (\<lambda>text. text = ''Type 'help' for available commands\<newline>'') (stdout s))"

text \<open>The bytes behind the payload pointer of a sample, and the text of one pair of them.\<close>

definition payload_bytes :: "wifi_csi_info_t \<Rightarrow> 8 word list" where
  "payload_bytes csi_data = (case buf csi_data of None \<Rightarrow> [] | Some bytes \<Rightarrow> bytes)"

definition pair_text :: "8 word list \<Rightarrow> nat \<Rightarrow> string" where
  "pair_text data_ptr i =
     amplitude_text (sint (data_ptr ! (i * 2))) (sint (data_ptr ! (i * 2 + 1)))"




section \<open>Formatted scanning: when a scan assigns a field\<close>

lemma sscanf_run_count: "vs \<noteq> [] \<Longrightarrow> int (length vs) \<le> fst (sscanf_run ds s vs)"
proof (induction ds s vs rule: sscanf_run.induct)
  case (4 ds s vs)
  then show ?case
    by (auto simp: input_failure_def Let_def split: option.splits) force
qed (auto simp: input_failure_def split: list.splits)

lemma isdigit_not_sign [simp]: "\<not> isdigit CHR ''-''" "\<not> isdigit CHR ''+''"
  by (simp_all add: isdigit_def)

lemma scan_decimal_None_iff:
  "scan_decimal s = None \<longleftrightarrow>
     \<not> (case s of [] \<Rightarrow> False
         | c # cs \<Rightarrow> isdigit c \<or>
             ((c = CHR ''-'' \<or> c = CHR ''+'') \<and> (case cs of [] \<Rightarrow> False | d # _ \<Rightarrow> isdigit d)))"
  by (auto simp: scan_decimal_def Let_def takeWhile_eq_Nil_iff split: list.splits)

lemma simple_positive_iff:
  "0 < fst (sscanf s TIMESTAMP_FORMAT_SIMPLE) \<longleftrightarrow> begins_with_integer s"
proof -
  define t where "t = dropWhile isspace s"
  have run: "sscanf s TIMESTAMP_FORMAT_SIMPLE =
               (if t = [] then (EOF, [])
                else (case scan_decimal t of
                        None \<Rightarrow> (0, [])
                      | Some (v, rest) \<Rightarrow> sscanf_run [Lit CHR ''.'', ConvInt] rest [v]))"
    by (simp add: sscanf_def TIMESTAMP_FORMAT_SIMPLE_def t_def Let_def input_failure_def
        del: dropWhile_eq_Nil_conv split: option.split)
  have bwi: "begins_with_integer s \<longleftrightarrow> scan_decimal t \<noteq> None"
    unfolding scan_decimal_None_iff by (simp add: begins_with_integer_def t_def)
  show ?thesis
  proof (cases "scan_decimal t")
    case None
    then show ?thesis by (simp add: run bwi EOF_def)
  next
    case (Some r)
    obtain v rest where r: "r = (v, rest)" by (cases r)
    have "int (length [v]) \<le> fst (sscanf_run [Lit CHR ''.'', ConvInt] rest [v])"
      by (rule sscanf_run_count) simp
    moreover from Some have "t \<noteq> []" by (auto simp: scan_decimal_def)
    ultimately show ?thesis using Some r by (simp add: run bwi)
  qed
qed

lemma sscanf_run_lits_match:
  "prefix l s \<Longrightarrow> sscanf_run (map Lit l @ ds) s [] = sscanf_run ds (drop (length l) s) []"
  by (induction l arbitrary: s) (auto simp: prefix_def)

lemma sscanf_run_lits_mismatch:
  "\<not> prefix l s \<Longrightarrow> fst (sscanf_run (map Lit l @ ds) s []) \<le> 0 \<and> snd (sscanf_run (map Lit l @ ds) s []) = []"
proof (induction l arbitrary: s)
  case Nil
  then show ?case by simp
next
  case (Cons a l)
  then show ?case
    by (cases s) (auto simp: input_failure_def EOF_def)
qed

lemma ws_conv_positive_iff:
  "0 < fst (sscanf_run [WS, ConvInt, Lit CHR ''.'', ConvInt] s []) \<longleftrightarrow> begins_with_integer s"
  using simple_positive_iff [of s]
  by (simp add: sscanf_def TIMESTAMP_FORMAT_SIMPLE_def)

lemma extended_positive_iff:
  "0 < fst (sscanf s TIMESTAMP_FORMAT_EXTENDED) \<longleftrightarrow>
     prefix ''SYNC_TIME:'' s \<and> begins_with_integer (drop 10 s)"
proof (cases "prefix ''SYNC_TIME:'' s")
  case True
  have "sscanf s TIMESTAMP_FORMAT_EXTENDED
          = sscanf_run [WS, ConvInt, Lit CHR ''.'', ConvInt] (drop (length ''SYNC_TIME:'') s) []"
    unfolding sscanf_def TIMESTAMP_FORMAT_EXTENDED_def
    by (rule sscanf_run_lits_match [OF True])
  then have "0 < fst (sscanf s TIMESTAMP_FORMAT_EXTENDED)
               \<longleftrightarrow> begins_with_integer (drop (length ''SYNC_TIME:'') s)"
    by (simp only: ws_conv_positive_iff)
  with True show ?thesis by (simp add: eval_nat_numeral)
next
  case False
  then show ?thesis
    using sscanf_run_lits_mismatch [OF False, of "[WS, ConvInt, Lit CHR ''.'', ConvInt]"]
    by (simp add: sscanf_def TIMESTAMP_FORMAT_EXTENDED_def)
qed

lemma validate_iff:
  "validate_timestamp_format (Some s) \<longleftrightarrow> numeric_timestamp_input s"
  using simple_positive_iff [of s] extended_positive_iff [of s]
  by (auto simp: validate_timestamp_format_def numeric_timestamp_input_def Let_def)

lemma parse_success_iff:
  "parse_success (parse_timestamp_string (Some s)) \<longleftrightarrow> numeric_timestamp_input s"
  using simple_positive_iff [of s] extended_positive_iff [of s]
  by (auto simp: parse_timestamp_string_def numeric_timestamp_input_def Let_def split: prod.splits if_splits)

section \<open>Timestamp parsing\<close>

lemmas scan_eval_defs =
  parse_timestamp_string_def sscanf_def TIMESTAMP_FORMAT_EXTENDED_def TIMESTAMP_FORMAT_SIMPLE_def
  scan_decimal_def isspace_def isdigit_def decimal_value_def digit_value_def input_failure_def
  EOF_def saturate_def

text \<open>
  The input \<open>100.-5\<close> is not rejected: the second conversion reads \<open>-5\<close>, both
  fields count as parsed, and only the microseconds are replaced by zero. On the booted
  console the synchronisation then sets the clock to 100 seconds and raises the flag.
\<close>

theorem parse_minus_five_succeeds:
  "parse_success (parse_timestamp_string (Some ''100.-5''))
   \<and> system_clock (snd (synchronize_system_time nominal_platform (Some ''100.-5'')
                          boot_console_state)) = \<lparr>tv_sec = 100, tv_usec = 0\<rparr>
   \<and> time_sync_established (snd (synchronize_system_time nominal_platform (Some ''100.-5'')
                                   boot_console_state))"
proof -
  have p: "parse_timestamp_string (Some ''100.-5'')
             = \<lparr>seconds = 100, microseconds = 0, parse_success = True\<rparr>"
    by (simp add: scan_eval_defs)
  show ?thesis
    by (simp add: p synchronize_system_time_def printf_def nominal_platform_def)
qed

text \<open>
  Claim C2, as the code has it. \<open>SYNC_TIME: 100.500000\<close> parses to 100 seconds and
  500000 microseconds with success. \<open>100.-5\<close> parses with success too, to 100 seconds
  with the microseconds clamped to 0, and where the platform accepts that value the
  synchronisation sets the clock to it and raises the flag. Every input that is not numeric
  (no integer at its start or behind \<open>SYNC_TIME:\<close>) parses without success, and
  \<open>synchronize_system_time\<close> then reports failure and leaves the clock and the
  synchronised flag as they were.
\<close>

theorem parse_timestamp_string_contract:
  "parse_timestamp_string (Some ''SYNC_TIME: 100.500000'')
     = \<lparr>seconds = 100, microseconds = 500000, parse_success = True\<rparr>
   \<and> parse_timestamp_string (Some ''100.-5'')
     = \<lparr>seconds = 100, microseconds = 0, parse_success = True\<rparr>
   \<and> (settimeofday_ok p \<lparr>tv_sec = 100, tv_usec = 0\<rparr> \<longrightarrow>
        fst (synchronize_system_time p (Some ''100.-5'') st)
        \<and> system_clock (snd (synchronize_system_time p (Some ''100.-5'') st))
            = \<lparr>tv_sec = 100, tv_usec = 0\<rparr>
        \<and> time_sync_established (snd (synchronize_system_time p (Some ''100.-5'') st)))
   \<and> (\<not> numeric_timestamp_input s \<longrightarrow>
        \<not> parse_success (parse_timestamp_string (Some s))
        \<and> \<not> fst (synchronize_system_time p (Some s) st)
        \<and> system_clock (snd (synchronize_system_time p (Some s) st)) = system_clock st
        \<and> time_sync_established (snd (synchronize_system_time p (Some s) st))
            = time_sync_established st)"
proof (intro conjI impI)
  show "parse_timestamp_string (Some ''SYNC_TIME: 100.500000'')
          = \<lparr>seconds = 100, microseconds = 500000, parse_success = True\<rparr>"
    by (simp add: scan_eval_defs)
  show five: "parse_timestamp_string (Some ''100.-5'')
          = \<lparr>seconds = 100, microseconds = 0, parse_success = True\<rparr>"
    by (simp add: scan_eval_defs)
  assume ok: "settimeofday_ok p \<lparr>tv_sec = 100, tv_usec = 0\<rparr>"
  then show "fst (synchronize_system_time p (Some ''100.-5'') st)"
    by (simp add: five synchronize_system_time_def printf_def)
  from ok show "system_clock (snd (synchronize_system_time p (Some ''100.-5'') st))
                  = \<lparr>tv_sec = 100, tv_usec = 0\<rparr>"
    by (simp add: five synchronize_system_time_def printf_def)
  from ok show "time_sync_established (snd (synchronize_system_time p (Some ''100.-5'') st))"
    by (simp add: five synchronize_system_time_def printf_def)
next
  assume "\<not> numeric_timestamp_input s"
  then have fail: "\<not> parse_success (parse_timestamp_string (Some s))"
    by (simp add: parse_success_iff)
  then show "\<not> parse_success (parse_timestamp_string (Some s))" .
  from fail show "\<not> fst (synchronize_system_time p (Some s) st)"
    by (simp add: synchronize_system_time_def printf_def)
  from fail show "system_clock (snd (synchronize_system_time p (Some s) st)) = system_clock st"
    by (simp add: synchronize_system_time_def printf_def)
  from fail show "time_sync_established (snd (synchronize_system_time p (Some s) st))
                    = time_sync_established st"
    by (simp add: synchronize_system_time_def printf_def)
qed

text \<open>
  The synchronisation from \<open>100.-5\<close> and the rejection of \<open>time please\<close> on the
  freshly booted console.
\<close>

theorem parse_timestamp_string_contract_witness:
  "settimeofday_ok nominal_platform \<lparr>tv_sec = 100, tv_usec = 0\<rparr>
   \<and> fst (synchronize_system_time nominal_platform (Some ''100.-5'') boot_console_state)
   \<and> system_clock (snd (synchronize_system_time nominal_platform (Some ''100.-5'')
                          boot_console_state)) = \<lparr>tv_sec = 100, tv_usec = 0\<rparr>
   \<and> \<not> numeric_timestamp_input ''time please''
   \<and> \<not> parse_success (parse_timestamp_string (Some ''time please''))
   \<and> \<not> fst (synchronize_system_time nominal_platform (Some ''time please'') boot_console_state)
   \<and> system_clock (snd (synchronize_system_time nominal_platform (Some ''time please'')
                          boot_console_state)) = system_clock boot_console_state
   \<and> time_sync_established (snd (synchronize_system_time nominal_platform (Some ''time please'')
                                   boot_console_state))
       = time_sync_established boot_console_state"
proof -
  have h: "\<not> numeric_timestamp_input ''time please''"
    by (simp add: numeric_timestamp_input_def begins_with_integer_def isspace_def isdigit_def)
  have k: "settimeofday_ok nominal_platform \<lparr>tv_sec = 100, tv_usec = 0\<rparr>"
    by (simp add: nominal_platform_def)
  show ?thesis
    using h k parse_timestamp_string_contract [where s = "''time please''"
        and p = nominal_platform and st = boot_console_state]
    by blast
qed

section \<open>Peer discovery\<close>

lemma select_host_resolved:
  "host_discovered st \<Longrightarrow>
     host_discovered (select_host rs st) \<and>
     discovered_host_ip (select_host rs st) = discovered_host_ip st"
  by (induction rs arbitrary: st) (auto simp: ESP_LOG_def split: option.splits)

lemma select_host_none_usable:
  "find usable_result rs = None \<Longrightarrow> select_host rs st = st"
  by (induction rs arbitrary: st) (auto simp: usable_result_def split: option.splits if_splits)

lemma select_host_first_usable:
  "\<not> host_discovered st \<Longrightarrow> find usable_result rs = Some r \<Longrightarrow>
     host_discovered (select_host rs st) \<and>
     discovered_host_ip (select_host rs st) = the (addr r)"
proof (induction rs arbitrary: st)
  case Nil
  then show ?case by simp
next
  case (Cons c rs)
  show ?case
  proof (cases "usable_result c")
    case True
    with Cons.prems have "r = c" by simp
    with True Cons.prems(1) show ?thesis
      using select_host_resolved [of "ESP_LOG LOG_INFO (''Selected host: '' @ the (addr c))
              ((ESP_LOG LOG_INFO (''Found host: '' @ the (hostname c) @ '' at '' @ the (addr c)) st)
                 \<lparr>discovered_host_ip := the (addr c), host_discovered := True\<rparr>)" rs]
      by (auto simp: usable_result_def ESP_LOG_def)
  next
    case False
    with Cons.prems have "find usable_result rs = Some r" by simp
    from Cons.IH [OF Cons.prems(1) this] False show ?thesis
      by (auto simp: usable_result_def split: option.splits)
  qed
qed

lemma discover_host_computer_resolved:
  "host_discovered st \<Longrightarrow>
     host_discovered (snd (discover_host_computer q st)) \<and>
     discovered_host_ip (snd (discover_host_computer q st)) = discovered_host_ip st"
  using select_host_resolved [of "ESP_LOG LOG_INFO ''Searching for host computer via mDNS...'' st" "snd q"]
  by (simp add: discover_host_computer_def Let_def ESP_LOG_def)

lemma discovery_cycles_resolved:
  "host_discovered st \<Longrightarrow>
     host_discovered (discovery_cycles qs st) \<and>
     discovered_host_ip (discovery_cycles qs st) = discovered_host_ip st"
  by (induction qs arbitrary: st) (simp_all add: discovery_cycle_def)

lemma discovery_cycle_from_query:
  assumes "\<not> host_discovered st" and "find usable_result rs = Some r"
  shows "host_discovered (discovery_cycle (ESP_OK, rs) st) \<and>
         discovered_host_ip (discovery_cycle (ESP_OK, rs) st) = the (addr r)"
  using assms
    select_host_first_usable [of "ESP_LOG LOG_INFO ''Searching for host computer via mDNS...'' st" rs r]
  by (simp add: discovery_cycle_def discover_host_computer_def Let_def ESP_LOG_def)

lemma discovery_cycle_fallback:
  assumes "\<not> host_discovered st" and "find usable_result rs = None"
  shows "host_discovered (discovery_cycle (ESP_OK, rs) st) \<and>
         discovered_host_ip (discovery_cycle (ESP_OK, rs) st) = ''192.168.4.255''"
  using assms
  by (simp add: discovery_cycle_def discover_host_computer_def Let_def ESP_LOG_def
      select_host_none_usable)

text \<open>
  Claim C9. Once a discovery cycle has resolved the peer from a query result (the first
  result that carries an address and a host name), the peer stays resolved at that address:
  after any further run of cycles, whatever the queries answer, and also after a further
  direct call of \<open>discover_host_computer\<close>. The fallback never replaces it.
\<close>

theorem discovery_never_regresses:
  assumes "\<not> host_discovered st" and "find usable_result rs = Some r"
  shows "host_discovered (discovery_cycle (ESP_OK, rs) st)
         \<and> discovered_host_ip (discovery_cycle (ESP_OK, rs) st) = the (addr r)
         \<and> host_discovered (discovery_cycles later (discovery_cycle (ESP_OK, rs) st))
         \<and> discovered_host_ip (discovery_cycles later (discovery_cycle (ESP_OK, rs) st)) = the (addr r)
         \<and> host_discovered (snd (discover_host_computer q (discovery_cycle (ESP_OK, rs) st)))
         \<and> discovered_host_ip (snd (discover_host_computer q (discovery_cycle (ESP_OK, rs) st)))
             = the (addr r)"
  using discovery_cycle_from_query [OF assms]
    discovery_cycles_resolved [of "discovery_cycle (ESP_OK, rs) st" later]
    discover_host_computer_resolved [of "discovery_cycle (ESP_OK, rs) st" q]
  by simp

text \<open>A peer at 192.168.4.2 survives an empty, a failed and another empty query.\<close>

theorem discovery_never_regresses_witness:
  "\<not> host_discovered boot_application_state
   \<and> find usable_result [host_answer] = Some host_answer
   \<and> discovered_host_ip (discovery_cycle (ESP_OK, [host_answer]) boot_application_state)
       = ''192.168.4.2''
   \<and> discovered_host_ip
        (discovery_cycles [(ESP_OK, []), (ESP_FAIL, []), (ESP_OK, [])]
           (discovery_cycle (ESP_OK, [host_answer]) boot_application_state)) = ''192.168.4.2''
   \<and> discovered_host_ip
        (snd (discover_host_computer (ESP_OK, [])
           (discovery_cycle (ESP_OK, [host_answer]) boot_application_state))) = ''192.168.4.2''"
proof -
  have h1: "\<not> host_discovered boot_application_state"
    by (simp add: boot_application_state_def)
  have h2: "find usable_result [host_answer] = Some host_answer"
    by (simp add: usable_result_def host_answer_def)
  have a: "the (addr host_answer) = ''192.168.4.2''"
    by (simp add: host_answer_def)
  show ?thesis
    using h1 h2 a
      discovery_never_regresses [OF h1 h2, of "[(ESP_OK, []), (ESP_FAIL, []), (ESP_OK, [])]"
        "(ESP_OK, [])"]
    by simp
qed

text \<open>
  Claim C6. A discovery cycle whose query returns without a usable result (in particular
  with no result at all) resolves the peer to the broadcast address 192.168.4.255 and marks
  it resolved. With the socket open, the forwarder then hands the record to \<open>sendto\<close>
  for that address and port 9999, and reports success when the send succeeds.
\<close>

theorem discovery_fallback_then_transmit:
  assumes "\<not> host_discovered st" and "find usable_result rs = None"
    and "0 \<le> udp_socket_descriptor st"
  shows "host_discovered (discovery_cycle (ESP_OK, rs) st)
         \<and> discovered_host_ip (discovery_cycle (ESP_OK, rs) st) = ''192.168.4.255''
         \<and> sendto_calls (snd (transmit_csi_data bytes_sent formatted_data
                                  (discovery_cycle (ESP_OK, rs) st)))
             = sendto_calls st @ [(''192.168.4.255'', 9999, formatted_data)]
         \<and> (0 \<le> bytes_sent \<longrightarrow>
              fst (transmit_csi_data bytes_sent formatted_data (discovery_cycle (ESP_OK, rs) st))
                = ESP_OK)"
proof -
  let ?st1 = "discovery_cycle (ESP_OK, rs) st"
  have fb: "host_discovered ?st1 \<and> discovered_host_ip ?st1 = ''192.168.4.255''"
    by (rule discovery_cycle_fallback [OF assms(1,2)])
  have sock: "udp_socket_descriptor ?st1 = udp_socket_descriptor st"
    and calls: "sendto_calls ?st1 = sendto_calls st"
    using assms(1,2)
    by (simp_all add: discovery_cycle_def discover_host_computer_def Let_def ESP_LOG_def
        select_host_none_usable)
  show ?thesis
    using fb sock calls assms(3)
    by (simp add: transmit_csi_data_def Let_def ESP_LOG_def HOST_COMMUNICATION_PORT_def)
qed

text \<open>The fallback on the booted application with an empty result list.\<close>

theorem discovery_fallback_then_transmit_witness:
  "\<not> host_discovered boot_application_state
   \<and> find usable_result [] = None
   \<and> 0 \<le> udp_socket_descriptor boot_application_state
   \<and> discovered_host_ip (discovery_cycle (ESP_OK, []) boot_application_state) = ''192.168.4.255''
   \<and> sendto_calls (snd (transmit_csi_data 7 ''record''
                           (discovery_cycle (ESP_OK, []) boot_application_state)))
       = [(''192.168.4.255'', 9999, ''record'')]
   \<and> fst (transmit_csi_data 7 ''record'' (discovery_cycle (ESP_OK, []) boot_application_state))
       = ESP_OK"
proof -
  have h1: "\<not> host_discovered boot_application_state"
    by (simp add: boot_application_state_def)
  have h2: "find usable_result ([] :: mdns_result_t list) = None" by simp
  have h3: "0 \<le> udp_socket_descriptor boot_application_state"
    by (simp add: boot_application_state_def)
  have c: "sendto_calls boot_application_state = []"
    by (simp add: boot_application_state_def)
  show ?thesis
    using h1 h2 h3 c
      discovery_fallback_then_transmit [OF h1 h2 h3, of 7 "''record''"]
    by simp
qed

section \<open>Admission filter\<close>

lemma strcmp_zero_iff:
  "CHR 0x00 \<notin> set a \<Longrightarrow> CHR 0x00 \<notin> set b \<Longrightarrow> strcmp a b = 0 \<longleftrightarrow> a = b"
proof (induction a b rule: strcmp.induct)
  case (2 b bs)
  then have "of_char b \<noteq> (0::nat)" by (cases b) auto
  then show ?case by simp
next
  case (3 a as)
  then have "of_char a \<noteq> (0::nat)" by (cases a) auto
  then show ?case by simp
qed auto

lemma hex_digit_lower_inj:
  "m < 16 \<Longrightarrow> n < 16 \<Longrightarrow> hex_digit_lower m = hex_digit_lower n \<longleftrightarrow> m = n"
proof -
  assume "m < 16" "n < 16"
  moreover have "distinct ''0123456789abcdef''" by simp
  ultimately show ?thesis
    unfolding hex_digit_lower_def by (simp add: nth_eq_iff_index_eq)
qed

lemma hex_digit_lower_not_nul: "hex_digit_lower n \<noteq> CHR 0x00"
proof -
  have "hex_digit_lower n \<in> set ''0123456789abcdef''"
    unfolding hex_digit_lower_def by (rule nth_mem) simp
  then show ?thesis by auto
qed

lemma hex2_lower_inj: "hex2_lower a = hex2_lower b \<longleftrightarrow> a = b"
proof
  assume "hex2_lower a = hex2_lower b"
  moreover have "unat a < 256" and "unat b < 256"
    using unsigned_less [of a, where ?'a = nat] unsigned_less [of b, where ?'a = nat]
    by simp_all
  ultimately have "unat a div 16 = unat b div 16" and "unat a mod 16 = unat b mod 16"
    by (simp_all add: hex2_lower_def hex_digit_lower_inj less_mult_imp_div_less)
  then have "unat a = unat b"
    by (metis div_mult_mod_eq)
  then show "a = b" by (simp add: word_unat_eq_iff)
qed simp

lemma format_mac_lower_six:
  "format_mac hex2_lower [a, b, c, d, e, f] =
     hex2_lower a @ '':'' @ hex2_lower b @ '':'' @ hex2_lower c @ '':'' @
     hex2_lower d @ '':'' @ hex2_lower e @ '':'' @ hex2_lower f"
  by (simp add: format_mac_def hex2_lower_def)

lemma format_mac_lower_inj:
  assumes "length x = 6" and "length y = 6"
  shows "format_mac hex2_lower x = format_mac hex2_lower y \<longleftrightarrow> x = y"
proof -
  obtain a b c d e f where x: "x = [a, b, c, d, e, f]"
    using assms(1) by (auto simp: length_Suc_conv eval_nat_numeral)
  obtain a' b' c' d' e' f' where y: "y = [a', b', c', d', e', f']"
    using assms(2) by (auto simp: length_Suc_conv eval_nat_numeral)
  have len: "\<And>w. length (hex2_lower w) = 2" by (simp add: hex2_lower_def)
  show ?thesis
    unfolding x y format_mac_lower_six
    by (simp add: len hex2_lower_inj)
qed

lemma format_mac_lower_not_nul:
  "length x = 6 \<Longrightarrow> CHR 0x00 \<notin> set (format_mac hex2_lower x)"
proof -
  assume "length x = 6"
  then obtain a b c d e f where x: "x = [a, b, c, d, e, f]"
    by (auto simp: length_Suc_conv eval_nat_numeral)
  show ?thesis
    unfolding x format_mac_lower_six
    by (simp add: hex2_lower_def hex_digit_lower_not_nul [THEN not_sym])
qed

lemma authorized_devices_bytes:
  "map (format_mac hex2_lower) allow_list = authorized_devices"
  by (simp add: allow_list_def authorized_devices_def format_mac_def hex2_lower_def
      hex_digit_lower_def)

lemma search_authorized_result:
  "CHR 0x00 \<notin> set text \<Longrightarrow> \<forall>d \<in> set devices. CHR 0x00 \<notin> set d \<Longrightarrow>
     fst (search_authorized text devices st) \<longleftrightarrow> text \<in> set devices"
  by (induction devices) (auto simp: strcmp_zero_iff)

lemma search_authorized_state:
  "(snd (search_authorized text devices st))\<lparr>esp_log := esp_log st\<rparr> = st"
  by (induction devices) (simp_all add: ESP_LOG_def)

lemma authorized_iff:
  assumes "length x = 6"
  shows "fst (is_authorized_research_device x st) \<longleftrightarrow> x \<in> set allow_list"
proof -
  have nul: "\<forall>d \<in> set authorized_devices. CHR 0x00 \<notin> set d"
    by (simp add: authorized_devices_def)
  have "fst (is_authorized_research_device x st)
          \<longleftrightarrow> format_mac hex2_lower x \<in> set (map (format_mac hex2_lower) allow_list)"
    unfolding is_authorized_research_device_def authorized_devices_bytes
    by (rule search_authorized_result [OF format_mac_lower_not_nul [OF assms] nul])
  also have "\<dots> \<longleftrightarrow> x \<in> set allow_list"
    using assms by (auto simp: allow_list_def format_mac_lower_inj)
  finally show ?thesis .
qed

text \<open>
  Claim C5. For every six-byte identity, the admission filter answers true exactly when the
  identity equals one of the allow-list entries byte for byte, where the entries are the
  byte sequences whose lower-case colon-separated text is the table \<open>authorized_devices\<close>.
  The answer does not depend on the application state, and the call changes nothing but
  the log.
\<close>

theorem admission_filter_exact:
  assumes "length x = 6"
  shows "(fst (is_authorized_research_device x st) \<longleftrightarrow> x \<in> set allow_list)
         \<and> map (format_mac hex2_lower) allow_list = authorized_devices
         \<and> fst (is_authorized_research_device x st') = fst (is_authorized_research_device x st)
         \<and> (snd (is_authorized_research_device x st))\<lparr>esp_log := esp_log st\<rparr> = st"
  using authorized_iff [OF assms, of st] authorized_iff [OF assms, of st']
    authorized_devices_bytes search_authorized_state
  by (simp add: is_authorized_research_device_def)


text \<open>Research device A is admitted.\<close>

theorem admission_filter_exact_witness:
  "length (mac sample_a) = 6
   \<and> fst (is_authorized_research_device (mac sample_a) boot_application_state)
   \<and> mac sample_a \<in> set allow_list"
proof -
  have h: "length (mac sample_a) = 6" by (simp add: sample_a_def)
  have m: "mac sample_a \<in> set allow_list" by (simp add: sample_a_def allow_list_def)
  show ?thesis
    using h m admission_filter_exact [OF h, of boot_application_state boot_application_state]
    by simp
qed

section \<open>Bounded sample queue\<close>

lemma search_authorized_accept:
  "fst (search_authorized text devices st) \<Longrightarrow>
     snd (search_authorized text devices st)
       = ESP_LOG LOG_INFO (''Authorized device detected: '' @ text) st"
  by (induction devices) (auto split: if_splits)

lemma is_authorized_keeps_queue:
  "csi_data_queue (snd (is_authorized_research_device x st)) = csi_data_queue st"
proof -
  have "csi_data_queue ((snd (is_authorized_research_device x st))\<lparr>esp_log := esp_log st\<rparr>)
          = csi_data_queue st"
    unfolding is_authorized_research_device_def by (simp only: search_authorized_state)
  then show ?thesis by simp
qed

lemma callback_queue_bound:
  assumes "length (csi_data_queue st) \<le> CSI_DATA_QUEUE_SIZE"
  shows "length (csi_data_queue (research_csi_data_callback csi_info r b st))
           \<le> CSI_DATA_QUEUE_SIZE"
proof (cases csi_info)
  case None
  with assms show ?thesis
    by (simp add: research_csi_data_callback_def ESP_LOG_def)
next
  case (Some info)
  obtain a st1 where auth: "is_authorized_research_device (mac info) st = (a, st1)"
    by (cases "is_authorized_research_device (mac info) st")
  have "csi_data_queue st1 = csi_data_queue st"
    using is_authorized_keeps_queue [of "mac info" st] auth by simp
  with assms Some auth show ?thesis
    by (auto simp: research_csi_data_callback_def ESP_LOG_def xQueueSend_def Let_def
        split: option.splits)
qed

lemma deliver_samples_queue_bound:
  "length (csi_data_queue st) \<le> CSI_DATA_QUEUE_SIZE \<Longrightarrow>
     length (csi_data_queue (deliver_samples evs st)) \<le> CSI_DATA_QUEUE_SIZE"
proof (induction evs arbitrary: st)
  case Nil
  then show ?case by simp
next
  case (Cons e evs)
  obtain i r b where e: "e = (i, r, b)" by (cases e)
  show ?case
    unfolding e using Cons.IH [OF callback_queue_bound [OF Cons.prems]] by simp
qed

lemma callback_admissible:
  assumes "admissible_delivery (Some info, r, b)"
  shows "csi_data_queue (research_csi_data_callback (Some info) r b st)
           = (if length (csi_data_queue st) < CSI_DATA_QUEUE_SIZE
              then csi_data_queue st @ [admitted_copy info] else csi_data_queue st)"
    and "overflow_drops (research_csi_data_callback (Some info) r b st)
           = overflow_drops st + (if length (csi_data_queue st) < CSI_DATA_QUEUE_SIZE then 0 else 1)"
    and "live_blocks (research_csi_data_callback (Some info) r b st)
           = live_blocks st + (if length (csi_data_queue st) < CSI_DATA_QUEUE_SIZE then 2 else 0)"
proof -
  from assms obtain payload where p: "buf info = Some payload" and rb: "r" "b"
    and len: "length (mac info) = 6" and allowed: "mac info \<in> set allow_list"
    by (auto simp: admissible_delivery_def)
  have auth: "fst (is_authorized_research_device (mac info) st)"
    using authorized_iff [OF len] allowed by simp
  then have st1: "snd (is_authorized_research_device (mac info) st)
                    = ESP_LOG LOG_INFO (''Authorized device detected: '' @
                        format_mac hex2_lower (mac info)) st"
    unfolding is_authorized_research_device_def by (rule search_authorized_accept)
  have split: "is_authorized_research_device (mac info) st
                 = (True, ESP_LOG LOG_INFO (''Authorized device detected: '' @
                        format_mac hex2_lower (mac info)) st)"
    using auth st1 by (simp add: prod_eq_iff)
  show "csi_data_queue (research_csi_data_callback (Some info) r b st)
           = (if length (csi_data_queue st) < CSI_DATA_QUEUE_SIZE
              then csi_data_queue st @ [admitted_copy info] else csi_data_queue st)"
    using p rb
    by (simp add: research_csi_data_callback_def split ESP_LOG_def xQueueSend_def Let_def
        admitted_copy_def)
  show "overflow_drops (research_csi_data_callback (Some info) r b st)
           = overflow_drops st + (if length (csi_data_queue st) < CSI_DATA_QUEUE_SIZE then 0 else 1)"
    using p rb
    by (simp add: research_csi_data_callback_def split ESP_LOG_def xQueueSend_def Let_def
        overflow_drops_def)
  show "live_blocks (research_csi_data_callback (Some info) r b st)
           = live_blocks st + (if length (csi_data_queue st) < CSI_DATA_QUEUE_SIZE then 2 else 0)"
    using p rb
    by (simp add: research_csi_data_callback_def split ESP_LOG_def xQueueSend_def Let_def)
qed

lemma deliver_admissible:
  assumes "\<forall>e \<in> set evs. admissible_delivery e"
    and "length (csi_data_queue st) \<le> CSI_DATA_QUEUE_SIZE"
  shows "csi_data_queue (deliver_samples evs st)
           = csi_data_queue st @
             take (CSI_DATA_QUEUE_SIZE - length (csi_data_queue st))
               (map (\<lambda>e. admitted_copy (the (fst e))) evs)
         \<and> overflow_drops (deliver_samples evs st)
           = overflow_drops st + (length evs - (CSI_DATA_QUEUE_SIZE - length (csi_data_queue st)))
         \<and> live_blocks (deliver_samples evs st)
           = live_blocks st +
             2 * int (min (length evs) (CSI_DATA_QUEUE_SIZE - length (csi_data_queue st)))"
  using assms
proof (induction evs arbitrary: st)
  case Nil
  then show ?case by simp
next
  case (Cons e evs)
  from Cons.prems(1) have adm: "admissible_delivery e" by simp
  then obtain info r b where e: "e = (Some info, r, b)"
    by (cases e) (auto simp: admissible_delivery_def split: option.splits)
  let ?st' = "research_csi_data_callback (Some info) r b st"
  note step = callback_admissible [OF adm [unfolded e], of st]
  have bound: "length (csi_data_queue ?st') \<le> CSI_DATA_QUEUE_SIZE"
    by (rule callback_queue_bound [OF Cons.prems(2)])
  from Cons.prems(1) have rest: "\<forall>e \<in> set evs. admissible_delivery e" by simp
  note ih = Cons.IH [OF rest bound]
  show ?case
  proof (cases "length (csi_data_queue st) < CSI_DATA_QUEUE_SIZE")
    case True
    then have "CSI_DATA_QUEUE_SIZE - length (csi_data_queue st)
                 = Suc (CSI_DATA_QUEUE_SIZE - length (csi_data_queue st) - 1)"
      by simp
    with True ih step show ?thesis
      unfolding e by (simp add: min_def)
  next
    case False
    with Cons.prems(2) have "CSI_DATA_QUEUE_SIZE - length (csi_data_queue st) = 0" by simp
    with False ih step show ?thesis
      unfolding e by simp
  qed
qed

text \<open>
  Claim C1. Whatever the driver delivers, the queue never holds more than 64 handles. When
  the queue is full, the enqueue of an admitted sample fails: the queue keeps its content,
  so the incoming sample is the one dropped, the two blocks of its copy are freed, and one
  drop is logged. Sixty-five admitted samples delivered to the empty queue leave the copies
  of the first sixty-four enqueued, in order, and exactly one logged drop.
\<close>

theorem queue_overflow_drops_newest:
  "(length (csi_data_queue st) \<le> CSI_DATA_QUEUE_SIZE \<longrightarrow>
      length (csi_data_queue (deliver_samples any st)) \<le> 64)
   \<and> (length (csi_data_queue st) = CSI_DATA_QUEUE_SIZE \<and> admissible_delivery (Some info, r, b) \<longrightarrow>
        csi_data_queue (research_csi_data_callback (Some info) r b st) = csi_data_queue st
        \<and> overflow_drops (research_csi_data_callback (Some info) r b st) = overflow_drops st + 1
        \<and> live_blocks (research_csi_data_callback (Some info) r b st) = live_blocks st)
   \<and> (csi_data_queue st = [] \<and> length evs = 65 \<and> (\<forall>e \<in> set evs. admissible_delivery e) \<longrightarrow>
        csi_data_queue (deliver_samples evs st)
          = map (\<lambda>e. admitted_copy (the (fst e))) (take 64 evs)
        \<and> length (csi_data_queue (deliver_samples evs st)) = 64
        \<and> overflow_drops (deliver_samples evs st) = overflow_drops st + 1
        \<and> live_blocks (deliver_samples evs st) = live_blocks st + 128)"
proof (intro conjI impI)
  assume "length (csi_data_queue st) \<le> CSI_DATA_QUEUE_SIZE"
  from deliver_samples_queue_bound [OF this]
  show "length (csi_data_queue (deliver_samples any st)) \<le> 64"
    by (simp add: CSI_DATA_QUEUE_SIZE_def)
next
  assume a: "length (csi_data_queue st) = CSI_DATA_QUEUE_SIZE \<and> admissible_delivery (Some info, r, b)"
  then have adm: "admissible_delivery (Some info, r, b)" by simp
  from a callback_admissible [OF adm, of st]
  show "csi_data_queue (research_csi_data_callback (Some info) r b st) = csi_data_queue st"
    and "overflow_drops (research_csi_data_callback (Some info) r b st) = overflow_drops st + 1"
    and "live_blocks (research_csi_data_callback (Some info) r b st) = live_blocks st"
    by simp_all
next
  assume a: "csi_data_queue st = [] \<and> length evs = 65 \<and> (\<forall>e \<in> set evs. admissible_delivery e)"
  then have adm: "\<forall>e \<in> set evs. admissible_delivery e"
    and b: "length (csi_data_queue st) \<le> CSI_DATA_QUEUE_SIZE" by simp_all
  from a deliver_admissible [OF adm b]
  show "csi_data_queue (deliver_samples evs st)
          = map (\<lambda>e. admitted_copy (the (fst e))) (take 64 evs)"
    and "length (csi_data_queue (deliver_samples evs st)) = 64"
    and "overflow_drops (deliver_samples evs st) = overflow_drops st + 1"
    and "live_blocks (deliver_samples evs st) = live_blocks st + 128"
    by (simp_all add: CSI_DATA_QUEUE_SIZE_def take_map)
qed

text \<open>
  A delivery to the full queue, and sixty-five deliveries of the sample of device A to the
  booted application.
\<close>

theorem queue_overflow_drops_newest_witness:
  "length (csi_data_queue full_queue_state) = CSI_DATA_QUEUE_SIZE
   \<and> admissible_delivery (Some sample_a, True, True)
   \<and> length (csi_data_queue (deliver_samples [(None, True, True)] full_queue_state)) \<le> 64
   \<and> csi_data_queue (research_csi_data_callback (Some sample_a) True True full_queue_state)
       = csi_data_queue full_queue_state
   \<and> overflow_drops (research_csi_data_callback (Some sample_a) True True full_queue_state) = 1
   \<and> live_blocks (research_csi_data_callback (Some sample_a) True True full_queue_state) = 128
   \<and> csi_data_queue boot_application_state = []
   \<and> length (replicate 65 (Some sample_a, True, True)) = 65
   \<and> list_all admissible_delivery (replicate 65 (Some sample_a, True, True))
   \<and> length (csi_data_queue (deliver_samples (replicate 65 (Some sample_a, True, True))
                                boot_application_state)) = 64
   \<and> overflow_drops (deliver_samples (replicate 65 (Some sample_a, True, True))
                        boot_application_state) = 1
   \<and> live_blocks (deliver_samples (replicate 65 (Some sample_a, True, True))
                     boot_application_state) = 128"
proof -
  have f1: "length (csi_data_queue full_queue_state) = CSI_DATA_QUEUE_SIZE"
    by (simp add: full_queue_state_def CSI_DATA_QUEUE_SIZE_def)
  have f2: "admissible_delivery (Some sample_a, True, True)"
    by (simp add: admissible_delivery_def sample_a_def allow_list_def)
  have fz: "overflow_drops full_queue_state = 0" "live_blocks full_queue_state = 128"
    by (simp_all add: overflow_drops_def full_queue_state_def boot_application_state_def)
  have h1: "csi_data_queue boot_application_state = []"
    by (simp add: boot_application_state_def)
  have h2: "length (replicate 65 (Some sample_a, True, True)) = 65" by simp
  have h3: "\<forall>e \<in> set (replicate 65 (Some sample_a, True, True)). admissible_delivery e"
    using f2 by simp
  have z: "overflow_drops boot_application_state = 0" "live_blocks boot_application_state = 0"
    by (simp_all add: overflow_drops_def boot_application_state_def)
  have full: "length (csi_data_queue (deliver_samples [(None, True, True)] full_queue_state)) \<le> 64
     \<and> csi_data_queue (research_csi_data_callback (Some sample_a) True True full_queue_state)
         = csi_data_queue full_queue_state
     \<and> overflow_drops (research_csi_data_callback (Some sample_a) True True full_queue_state) = 1
     \<and> live_blocks (research_csi_data_callback (Some sample_a) True True full_queue_state) = 128"
    using f1 f2 fz
      queue_overflow_drops_newest [of full_queue_state "[(None, True, True)]" sample_a True True
        "[]"]
    by simp
  have boot: "length (csi_data_queue (deliver_samples (replicate 65 (Some sample_a, True, True))
                                boot_application_state)) = 64
     \<and> overflow_drops (deliver_samples (replicate 65 (Some sample_a, True, True))
                        boot_application_state) = 1
     \<and> live_blocks (deliver_samples (replicate 65 (Some sample_a, True, True))
                     boot_application_state) = 128"
    using h1 h2 h3 z
      queue_overflow_drops_newest [of boot_application_state "[]" sample_a True True
        "replicate 65 (Some sample_a, True, True)"]
    by simp
  show ?thesis
    using f1 f2 h1 h2 h3 full boot by (simp add: list_all_iff)
qed

section \<open>Console line buffer\<close>

lemma scan_stores_ordinary_bytes:
  "list_all ordinary_byte xs \<Longrightarrow>
   length (command_buffer (g_cmd_processor s)) + length xs \<le> 511 \<Longrightarrow>
   scan_for_input_data p (xs @ rest) s
     = scan_for_input_data p rest
         (s\<lparr>g_cmd_processor := (g_cmd_processor s)
              \<lparr>command_buffer := command_buffer (g_cmd_processor s) @ xs\<rparr>\<rparr>)"
proof (induction xs arbitrary: s)
  case Nil
  then show ?case by simp
next
  case (Cons x xs)
  from Cons.prems(1) have xs: "list_all ordinary_byte xs" by simp
  from Cons.prems(1) have x: "x \<noteq> CHR 0xFF" "x \<noteq> CHR 0x0A" "x \<noteq> CHR 0x0D"
    by (simp_all add: ordinary_byte_def)
  from Cons.prems(2) have room: "buffer_position (g_cmd_processor s) < int MAX_COMMAND_LENGTH - 1"
    by (simp add: buffer_position_def MAX_COMMAND_LENGTH_def)
  have len: "length (command_buffer (g_cmd_processor (store_byte x s))) + length xs \<le> 511"
    using Cons.prems(2) by (simp add: store_byte_def)
  have "scan_for_input_data p ((x # xs) @ rest) s
          = scan_for_input_data p (xs @ rest) (store_byte x s)"
    using x room by simp
  also have "\<dots> = scan_for_input_data p rest
         ((store_byte x s)\<lparr>g_cmd_processor := (g_cmd_processor (store_byte x s))
              \<lparr>command_buffer := command_buffer (g_cmd_processor (store_byte x s)) @ xs\<rparr>\<rparr>)"
    by (rule Cons.IH [OF xs len])
  finally show ?case by (simp add: store_byte_def)
qed

lemma scan_overflow_step:
  assumes "ordinary_byte c" and "length (command_buffer (g_cmd_processor s)) = 511"
  shows "scan_for_input_data p (c # rest) s
           = scan_for_input_data p rest (reset_buffer (printf overflow_notice s))"
  using assms
  by (simp add: ordinary_byte_def buffer_position_def MAX_COMMAND_LENGTH_def overflow_notice_def)

lemma scan_overflow_discards:
  assumes "list_all ordinary_byte pre" and "ordinary_byte c"
    and "length (command_buffer (g_cmd_processor s)) + length pre = 511"
  shows "scan_for_input_data p (pre @ c # rest) s
           = scan_for_input_data p rest (reset_buffer (printf overflow_notice s))"
proof -
  let ?full = "s\<lparr>g_cmd_processor := (g_cmd_processor s)
                   \<lparr>command_buffer := command_buffer (g_cmd_processor s) @ pre\<rparr>\<rparr>"
  have "scan_for_input_data p (pre @ c # rest) s = scan_for_input_data p (c # rest) ?full"
    using assms(3) by (intro scan_stores_ordinary_bytes [OF assms(1)]) simp
  also have "\<dots> = scan_for_input_data p rest (reset_buffer (printf overflow_notice ?full))"
    using assms(3) by (intro scan_overflow_step [OF assms(2)]) simp
  also have "reset_buffer (printf overflow_notice ?full) = reset_buffer (printf overflow_notice s)"
    by (simp add: reset_buffer_def printf_def)
  finally show ?thesis .
qed

lemma scan_line:
  assumes "console_line l" and "command_buffer (g_cmd_processor s) = []"
  shows "scan_for_input_data p (l @ CHR 0x0A # rest) s
           = scan_for_input_data p rest
               (reset_buffer (snd (execute_classified_command p l (classify_command (Some l))
                  (s\<lparr>g_cmd_processor := (g_cmd_processor s)\<lparr>command_buffer := l\<rparr>\<rparr>))))"
proof -
  from assms(1) have ord: "list_all ordinary_byte l" and len: "length l \<le> 511"
    and ne: "l \<noteq> []" and nul: "list_all (\<lambda>c. c \<noteq> CHR 0x00) l"
    by (simp_all add: console_line_def)
  let ?s1 = "s\<lparr>g_cmd_processor := (g_cmd_processor s)\<lparr>command_buffer := l\<rparr>\<rparr>"
  have "scan_for_input_data p (l @ CHR 0x0A # rest) s
          = scan_for_input_data p (CHR 0x0A # rest) ?s1"
    using scan_stores_ordinary_bytes [OF ord, of s p "CHR 0x0A # rest"] len assms(2) by simp
  moreover have "c_string l = l"
    using nul by (simp add: c_string_def list_all_iff)
  then have "process_received_command p ?s1
               = snd (execute_classified_command p l (classify_command (Some l)) ?s1)"
    using ne by (simp add: process_received_command_def)
  ultimately show ?thesis by simp
qed

lemma help_after_overflow:
  "commands_processed (g_cmd_processor
     (scan_for_input_data nominal_platform ''help\<newline>''
        (reset_buffer (printf overflow_notice boot_console_state)))) = 1"
  by code_simp

text \<open>
  A line of 512 bytes \<open>x\<close> followed by \<open>help\<close> and a line feed: the buffer
  overflows at the 512th byte, and the rest of the same line is then dispatched as the
  help command, which the counter records.
\<close>

theorem overflow_tail_is_dispatched:
  "commands_processed (g_cmd_processor
     (scan_for_input_data nominal_platform (replicate 512 CHR ''x'' @ ''help\<newline>'')
        boot_console_state)) = 1"
proof -
  have split: "replicate 512 CHR ''x'' @ ''help\<newline>''
                 = replicate 511 CHR ''x'' @ CHR ''x'' # ''help\<newline>''"
    using replicate_add [of 511 1 "CHR ''x''"] by simp
  have pre: "list_all ordinary_byte (replicate 511 CHR ''x'')"
    by (simp add: list_all_iff ordinary_byte_def)
  have c: "ordinary_byte CHR ''x''" by (simp add: ordinary_byte_def)
  have len: "length (command_buffer (g_cmd_processor boot_console_state))
               + length (replicate 511 CHR ''x'') = 511"
    by (simp add: boot_console_state_def)
  show ?thesis
    unfolding split
    by (simp only: scan_overflow_discards [OF pre c len] help_after_overflow)
qed


text \<open>
  Claim C7, as the code has it. When a byte that is neither a line terminator nor the
  end-of-scan byte \<open>0xFF\<close> arrives while the buffer holds 511 bytes, the buffered bytes
  and that byte are discarded and the overflow notice is printed; none of them is classified
  or dispatched, since the scan continues from the state before them with only the notice
  added and the buffer empty. The bytes that follow are scanned as at the start of a new
  line: when they form a line of 1 to 511 bytes before the next line feed, that line is
  classified and dispatched as a command of its own.
\<close>

theorem overflow_discards_buffered_bytes:
  assumes "list_all ordinary_byte pre" and "ordinary_byte c"
    and "length (command_buffer (g_cmd_processor s)) + length pre = 511"
  shows "scan_for_input_data p (pre @ c # rest) s
           = scan_for_input_data p rest (reset_buffer (printf overflow_notice s))
         \<and> command_buffer (g_cmd_processor (reset_buffer (printf overflow_notice s))) = []
         \<and> stdout (reset_buffer (printf overflow_notice s)) = stdout s @ [overflow_notice]
         \<and> commands_processed (g_cmd_processor (reset_buffer (printf overflow_notice s)))
             = commands_processed (g_cmd_processor s)
         \<and> (console_line tail \<longrightarrow>
              scan_for_input_data p (pre @ c # tail @ CHR 0x0A # rest) s
                = scan_for_input_data p rest
                    (reset_buffer (snd (execute_classified_command p tail
                       (classify_command (Some tail))
                       ((printf overflow_notice s)
                          \<lparr>g_cmd_processor := (g_cmd_processor s)\<lparr>command_buffer := tail\<rparr>\<rparr>)))))"
proof (intro conjI impI)
  show "scan_for_input_data p (pre @ c # rest) s
          = scan_for_input_data p rest (reset_buffer (printf overflow_notice s))"
    by (rule scan_overflow_discards [OF assms])
  show "command_buffer (g_cmd_processor (reset_buffer (printf overflow_notice s))) = []"
    by (simp add: reset_buffer_def)
  show "stdout (reset_buffer (printf overflow_notice s)) = stdout s @ [overflow_notice]"
    by (simp add: reset_buffer_def printf_def)
  show "commands_processed (g_cmd_processor (reset_buffer (printf overflow_notice s)))
          = commands_processed (g_cmd_processor s)"
    by (simp add: reset_buffer_def printf_def)
next
  assume tail: "console_line tail"
  let ?r = "reset_buffer (printf overflow_notice s)"
  have empty: "command_buffer (g_cmd_processor ?r) = []" by (simp add: reset_buffer_def)
  have "scan_for_input_data p (pre @ c # tail @ CHR 0x0A # rest) s
          = scan_for_input_data p (tail @ CHR 0x0A # rest) ?r"
    by (rule scan_overflow_discards [OF assms])
  also have "\<dots> = scan_for_input_data p rest
                    (reset_buffer (snd (execute_classified_command p tail
                       (classify_command (Some tail))
                       (?r\<lparr>g_cmd_processor := (g_cmd_processor ?r)\<lparr>command_buffer := tail\<rparr>\<rparr>))))"
    by (rule scan_line [OF tail empty])
  also have "?r\<lparr>g_cmd_processor := (g_cmd_processor ?r)\<lparr>command_buffer := tail\<rparr>\<rparr>
               = (printf overflow_notice s)
                   \<lparr>g_cmd_processor := (g_cmd_processor s)\<lparr>command_buffer := tail\<rparr>\<rparr>"
    by (simp add: reset_buffer_def printf_def)
  finally show "scan_for_input_data p (pre @ c # tail @ CHR 0x0A # rest) s
                = scan_for_input_data p rest
                    (reset_buffer (snd (execute_classified_command p tail
                       (classify_command (Some tail))
                       ((printf overflow_notice s)
                          \<lparr>g_cmd_processor := (g_cmd_processor s)\<lparr>command_buffer := tail\<rparr>\<rparr>))))" .
qed

text \<open>
  The overflow of 512 bytes \<open>x\<close> on the booted console, before the text \<open>help\<close> and
  a line feed.
\<close>

theorem overflow_discards_buffered_bytes_witness:
  "list_all ordinary_byte (replicate 511 CHR ''x'')
   \<and> ordinary_byte CHR ''x''
   \<and> length (command_buffer (g_cmd_processor boot_console_state))
       + length (replicate 511 CHR ''x'') = 511
   \<and> console_line ''help''
   \<and> scan_for_input_data nominal_platform
        (replicate 511 CHR ''x'' @ CHR ''x'' # ''help\<newline>'') boot_console_state
       = scan_for_input_data nominal_platform ''help\<newline>''
           (reset_buffer (printf overflow_notice boot_console_state))
   \<and> scan_for_input_data nominal_platform
        (replicate 511 CHR ''x'' @ CHR ''x'' # ''help'' @ CHR 0x0A # []) boot_console_state
       = scan_for_input_data nominal_platform []
           (reset_buffer (snd (execute_classified_command nominal_platform ''help''
              (classify_command (Some ''help''))
              ((printf overflow_notice boot_console_state)
                 \<lparr>g_cmd_processor := (g_cmd_processor boot_console_state)
                    \<lparr>command_buffer := ''help''\<rparr>\<rparr>))))"
proof -
  have pre: "list_all ordinary_byte (replicate 511 CHR ''x'')"
    by (simp add: list_all_iff ordinary_byte_def)
  have c: "ordinary_byte CHR ''x''" by (simp add: ordinary_byte_def)
  have len: "length (command_buffer (g_cmd_processor boot_console_state))
               + length (replicate 511 CHR ''x'') = 511"
    by (simp add: boot_console_state_def)
  have tail: "console_line ''help''" by (simp add: console_line_def ordinary_byte_def)
  show ?thesis
    using pre c len tail
      overflow_discards_buffered_bytes [OF pre c len, of nominal_platform "''help\<newline>''" "''help''"]
      overflow_discards_buffered_bytes [OF pre c len, of nominal_platform "[]" "''help''"]
    by blast
qed

section \<open>Trimming and integers at the start of a line\<close>

lemma trim_end_le: "trim_end e s \<le> e"
  by (induction e) auto

lemma trim_end_spaces: "trim_end e s < i \<Longrightarrow> i \<le> e \<Longrightarrow> isspace (s ! i)"
  by (induction e) (auto simp: le_Suc_eq split: if_splits)

lemma trim_whitespace_decomp:
  obtains ws where "dropWhile isspace s = trim_whitespace s @ ws" and "list_all isspace ws"
proof (cases "dropWhile isspace s = []")
  case True
  then have "dropWhile isspace s = trim_whitespace s @ []"
    by (simp add: trim_whitespace_def del: dropWhile_eq_Nil_conv)
  then show ?thesis using that [of "[]"] by simp
next
  case False
  define m where "m = dropWhile isspace s"
  define k where "k = Suc (trim_end (length m - 1) m)"
  from False have trim: "trim_whitespace s = take k m"
    by (simp add: trim_whitespace_def m_def k_def Let_def del: dropWhile_eq_Nil_conv)
  have "isspace (drop k m ! i)" if "i < length (drop k m)" for i
  proof -
    from that have "k + i < length m" by simp
    then have "trim_end (length m - 1) m < k + i" and "k + i \<le> length m - 1"
      by (simp_all add: k_def)
    then have "isspace (m ! (k + i))" by (rule trim_end_spaces)
    with that show ?thesis by simp
  qed
  then have "list_all isspace (drop k m)" by (simp add: list_all_length)
  moreover have "dropWhile isspace s = trim_whitespace s @ drop k m"
    by (simp add: trim m_def [symmetric])
  ultimately show ?thesis using that by blast
qed

lemma begins_with_integer_dropWhile:
  "begins_with_integer (dropWhile isspace s) = begins_with_integer s"
  by (simp add: begins_with_integer_def dropWhile_idem)

lemma begins_with_integer_append_spaces:
  assumes "list_all isspace ws"
  shows "begins_with_integer (u @ ws) = begins_with_integer u"
proof (cases "dropWhile isspace u")
  case Nil
  then have all: "\<forall>c \<in> set u. isspace c" by simp
  with assms have "dropWhile isspace (u @ ws) = []" by (auto simp: list_all_iff)
  with Nil show ?thesis by (simp add: begins_with_integer_def del: dropWhile_eq_Nil_conv)
next
  case (Cons c cs)
  then obtain x where "x \<in> set u" and "\<not> isspace x"
    by (metis dropWhile_eq_Nil_conv list.distinct(1))
  then have "dropWhile isspace (u @ ws) = dropWhile isspace u @ ws"
    by (rule dropWhile_append1)
  with Cons have d: "dropWhile isspace (u @ ws) = c # cs @ ws" by simp
  have "\<not> isdigit w" if "isspace w" for w
    using that by (auto simp: isspace_def isdigit_def)
  with assms have "(case cs @ ws of [] \<Rightarrow> False | d # _ \<Rightarrow> isdigit d)
                     = (case cs of [] \<Rightarrow> False | d # _ \<Rightarrow> isdigit d)"
    by (cases cs; cases ws) auto
  with Cons d show ?thesis by (simp add: begins_with_integer_def)
qed

lemma begins_with_integer_trim:
  "begins_with_integer (trim_whitespace s) = begins_with_integer s"
proof -
  obtain ws where d: "dropWhile isspace s = trim_whitespace s @ ws" and ws: "list_all isspace ws"
    by (rule trim_whitespace_decomp)
  have "begins_with_integer s = begins_with_integer (trim_whitespace s @ ws)"
    using begins_with_integer_dropWhile [of s] d by simp
  then show ?thesis using begins_with_integer_append_spaces [OF ws] by simp
qed

lemma isdigit_not_space: "isdigit c \<Longrightarrow> \<not> isspace c"
  by (auto simp: isdigit_def isspace_def)

lemma signed_digits_begin_with_integer:
  assumes "sign = [] \<or> sign = ''+'' \<or> sign = ''-''" and "ds \<noteq> []" and "list_all isdigit ds"
  shows "begins_with_integer (sign @ ds @ trail)"
proof -
  obtain d ds' where ds: "ds = d # ds'" using assms(2) by (cases ds) auto
  with assms(3) have d: "isdigit d" by simp
  then have nsp: "\<not> isspace d" by (rule isdigit_not_space)
  have sp: "\<not> isspace CHR ''+''" "\<not> isspace CHR ''-''" by (simp_all add: isspace_def)
  from assms(1) ds d nsp sp show ?thesis
    by (auto simp: begins_with_integer_def)
qed

lemma scan_decimal_signed_digits:
  assumes "sign = [] \<or> sign = ''+'' \<or> sign = ''-''" and "ds \<noteq> []" and "list_all isdigit ds"
    and "case rest of [] \<Rightarrow> True | c # u \<Rightarrow> \<not> isdigit c"
  shows "scan_decimal (sign @ ds @ rest) = Some (signed_value sign ds, rest)"
proof -
  obtain d ds' where ds: "ds = d # ds'" using assms(2) by (cases ds) auto
  with assms(3) have d: "isdigit d" by simp
  have tw: "takeWhile isdigit (ds @ rest) = ds"
    using assms(3,4) by (cases rest) (auto simp: list_all_iff takeWhile_append)
  have dw: "dropWhile isdigit (ds @ rest) = rest"
    using assms(3,4) by (cases rest) (auto simp: list_all_iff dropWhile_append)
  from d have nd: "d \<noteq> CHR ''-''" "d \<noteq> CHR ''+''" by auto
  from assms(1) show ?thesis
  proof (elim disjE)
    assume "sign = []"
    then show ?thesis
      using tw dw assms(2) nd ds by (simp add: scan_decimal_def signed_value_def)
  next
    assume "sign = ''+''"
    then show ?thesis
      using tw dw assms(2) by (simp add: scan_decimal_def signed_value_def)
  next
    assume "sign = ''-''"
    then show ?thesis
      using tw dw assms(2) by (simp add: scan_decimal_def signed_value_def)
  qed
qed

lemma not_prefix_sync_time:
  "dropWhile isspace l = c # r \<Longrightarrow> c \<noteq> CHR ''S'' \<Longrightarrow> \<not> prefix ''SYNC_TIME:'' l"
  by (auto simp: prefix_def isspace_def)

lemma scan_after_seconds:
  assumes "no_fraction trail" and "list_all isspace ws"
  shows "sscanf_run [Lit CHR ''.'', ConvInt] (trail @ ws) [v] = (1, [v])"
proof (cases trail)
  case Nil
  with assms(2) show ?thesis
    by (cases ws) (auto simp: input_failure_def isspace_def)
next
  case (Cons c u)
  show ?thesis
  proof (cases "c = CHR ''.''")
    case False
    with Cons show ?thesis by simp
  next
    case True
    with Cons assms(1) have "\<not> begins_with_integer u" by (simp add: no_fraction_def)
    then have nb: "\<not> begins_with_integer (u @ ws)"
      by (simp add: begins_with_integer_append_spaces [OF assms(2)])
    define t where "t = dropWhile isspace (u @ ws)"
    from nb have "scan_decimal t = None"
      unfolding scan_decimal_None_iff by (simp add: begins_with_integer_def t_def)
    then have "sscanf_run [ConvInt] (u @ ws) [v] = (1, [v])"
      by (simp add: Let_def input_failure_def t_def [symmetric])
    with Cons True show ?thesis by simp
  qed
qed

lemma saturate_fits: "- (2 ^ 63) \<le> v \<Longrightarrow> v < 2 ^ 63 \<Longrightarrow> saturate 64 v = v"
  by (simp add: saturate_def)

lemma parse_integer_line:
  assumes "trim_whitespace line = sign @ ds @ trail"
    and "sign = [] \<or> sign = ''+'' \<or> sign = ''-''" and "ds \<noteq> []" and "list_all isdigit ds"
    and "no_fraction trail"
  shows "parse_timestamp_string (Some line)
           = \<lparr>seconds = word_of_int (saturate 64 (signed_value sign ds)), microseconds = 0,
              parse_success = True\<rparr>"
proof -
  obtain ws where d: "dropWhile isspace line = (sign @ ds @ trail) @ ws" and ws: "list_all isspace ws"
    using trim_whitespace_decomp [of line] assms(1) by metis
  obtain dg ds' where ds: "ds = dg # ds'" using assms(3) by (cases ds) auto
  with assms(4) have dg: "isdigit dg" by simp
  then have "dg \<noteq> CHR ''S''" by (auto simp: isdigit_def)
  with assms(2) ds d obtain c r where cr: "dropWhile isspace line = c # r" "c \<noteq> CHR ''S''"
    by auto
  have ext: "fst (sscanf line TIMESTAMP_FORMAT_EXTENDED) \<le> 0"
    using extended_positive_iff [of line] not_prefix_sync_time [OF cr] by simp
  have follow: "case trail @ ws of [] \<Rightarrow> True | c # u \<Rightarrow> \<not> isdigit c"
    using assms(5) ws
    by (cases trail; cases ws) (auto simp: no_fraction_def dest: isdigit_not_space)
  have sd: "scan_decimal (dropWhile isspace line) = Some (signed_value sign ds, trail @ ws)"
    unfolding d using scan_decimal_signed_digits [OF assms(2,3,4) follow] by simp
  define t where "t = dropWhile isspace line"
  have "t \<noteq> []" using cr by (simp add: t_def)
  then have simple: "sscanf line TIMESTAMP_FORMAT_SIMPLE = (1, [signed_value sign ds])"
    using sd scan_after_seconds [OF assms(5) ws, of "signed_value sign ds"]
    by (simp add: sscanf_def TIMESTAMP_FORMAT_SIMPLE_def Let_def t_def [symmetric])
  show ?thesis
    using ext simple by (simp add: parse_timestamp_string_def Let_def)
qed

lemma classify_integer_line:
  assumes "length line \<le> 511" and "trim_whitespace line = sign @ ds @ trail"
    and "sign = [] \<or> sign = ''+'' \<or> sign = ''-''" and "ds \<noteq> []" and "list_all isdigit ds"
  shows "classify_command (Some line) = CMD_TYPE_TIME_SYNC"
proof -
  have "numeric_timestamp_input (trim_whitespace line)"
    unfolding assms(2) numeric_timestamp_input_def
    using signed_digits_begin_with_integer [OF assms(3,4,5)] by simp
  then show ?thesis
    using assms(1) by (simp add: classify_command_def MAX_COMMAND_LENGTH_def validate_iff)
qed


lemma execute_time_sync:
  assumes "parse_timestamp_string (Some line)
             = \<lparr>seconds = a, microseconds = b, parse_success = True\<rparr>"
    and "settimeofday_ok p \<lparr>tv_sec = a, tv_usec = b\<rparr>"
  shows "fst (execute_classified_command p line CMD_TYPE_TIME_SYNC s)"
    and "system_clock (snd (execute_classified_command p line CMD_TYPE_TIME_SYNC s))
           = \<lparr>tv_sec = a, tv_usec = b\<rparr>"
    and "time_sync_established (snd (execute_classified_command p line CMD_TYPE_TIME_SYNC s))"
    and "commands_processed (g_cmd_processor
           (snd (execute_classified_command p line CMD_TYPE_TIME_SYNC s)))
           = commands_processed (g_cmd_processor s) + 1"
  using assms
  by (simp_all add: execute_classified_command_def synchronize_system_time_def printf_def)

text \<open>
  Claim C10. A console line whose trimmed text begins with an optionally signed decimal
  integer is classified as a time-sync command, whatever follows the integer. When no
  microsecond part follows, the integer fits the signed 64-bit seconds field and the
  platform accepts the value, dispatching the line reports it handled, sets the clock to
  that number of seconds and 0 microseconds, sets the synchronised flag and counts the
  command.
\<close>

theorem integer_line_is_time_sync:
  assumes "length line \<le> 511" and "trim_whitespace line = sign @ ds @ trail"
    and "sign = [] \<or> sign = ''+'' \<or> sign = ''-''" and "ds \<noteq> []" and "list_all isdigit ds"
  shows "classify_command (Some line) = CMD_TYPE_TIME_SYNC
         \<and> (no_fraction trail
              \<and> - (2 ^ 63) \<le> signed_value sign ds \<and> signed_value sign ds < 2 ^ 63
              \<and> settimeofday_ok p \<lparr>tv_sec = word_of_int (signed_value sign ds), tv_usec = 0\<rparr> \<longrightarrow>
              fst (execute_classified_command p line (classify_command (Some line)) s)
              \<and> system_clock (snd (execute_classified_command p line
                                      (classify_command (Some line)) s))
                  = \<lparr>tv_sec = word_of_int (signed_value sign ds), tv_usec = 0\<rparr>
              \<and> sint (tv_sec (system_clock (snd (execute_classified_command p line
                                                  (classify_command (Some line)) s))))
                  = signed_value sign ds
              \<and> time_sync_established (snd (execute_classified_command p line
                                               (classify_command (Some line)) s))
              \<and> commands_processed (g_cmd_processor
                   (snd (execute_classified_command p line (classify_command (Some line)) s)))
                  = commands_processed (g_cmd_processor s) + 1)"
proof (intro conjI impI)
  show cls: "classify_command (Some line) = CMD_TYPE_TIME_SYNC"
    by (rule classify_integer_line [OF assms])
  assume a: "no_fraction trail
             \<and> - (2 ^ 63) \<le> signed_value sign ds \<and> signed_value sign ds < 2 ^ 63
             \<and> settimeofday_ok p \<lparr>tv_sec = word_of_int (signed_value sign ds), tv_usec = 0\<rparr>"
  then have fits: "saturate 64 (signed_value sign ds) = signed_value sign ds"
    by (simp add: saturate_fits)
  from a have parse: "parse_timestamp_string (Some line)
           = \<lparr>seconds = word_of_int (signed_value sign ds), microseconds = 0,
              parse_success = True\<rparr>"
    using parse_integer_line [OF assms(2,3,4,5)] fits by simp
  from a have ok: "settimeofday_ok p \<lparr>tv_sec = word_of_int (signed_value sign ds), tv_usec = 0\<rparr>"
    by simp
  note eff = execute_time_sync [OF parse ok, of s]
  show "fst (execute_classified_command p line (classify_command (Some line)) s)"
    unfolding cls by (rule eff(1))
  show clock: "system_clock (snd (execute_classified_command p line (classify_command (Some line)) s))
          = \<lparr>tv_sec = word_of_int (signed_value sign ds), tv_usec = 0\<rparr>"
    unfolding cls by (rule eff(2))
  have "sint (word_of_int (signed_value sign ds) :: 64 word) = signed_value sign ds"
    using a by (simp add: sint_sbintrunc' signed_take_bit_int_eq_self)
  then show "sint (tv_sec (system_clock (snd (execute_classified_command p line
                                                (classify_command (Some line)) s))))
               = signed_value sign ds"
    by (simp add: clock)
  show "time_sync_established (snd (execute_classified_command p line
                                      (classify_command (Some line)) s))"
    unfolding cls by (rule eff(3))
  show "commands_processed (g_cmd_processor
          (snd (execute_classified_command p line (classify_command (Some line)) s)))
          = commands_processed (g_cmd_processor s) + 1"
    unfolding cls by (rule eff(4))
qed

text \<open>The line \<open>123abc\<close> on the booted console sets the clock to 123 seconds.\<close>

theorem integer_line_is_time_sync_witness:
  "length ''123abc'' \<le> 511
   \<and> trim_whitespace ''123abc'' = [] @ ''123'' @ ''abc''
   \<and> list_all isdigit ''123''
   \<and> no_fraction ''abc''
   \<and> signed_value [] ''123'' = 123
   \<and> settimeofday_ok nominal_platform \<lparr>tv_sec = 123, tv_usec = 0\<rparr>
   \<and> classify_command (Some ''123abc'') = CMD_TYPE_TIME_SYNC
   \<and> system_clock (snd (execute_classified_command nominal_platform ''123abc''
                          (classify_command (Some ''123abc'')) boot_console_state))
       = \<lparr>tv_sec = 123, tv_usec = 0\<rparr>
   \<and> time_sync_established (snd (execute_classified_command nominal_platform ''123abc''
                                   (classify_command (Some ''123abc'')) boot_console_state))"
proof -
  have h1: "length ''123abc'' \<le> 511" by simp
  have h2: "trim_whitespace ''123abc'' = [] @ ''123'' @ ''abc''" by code_simp
  have h3: "([]::string) = [] \<or> ([]::string) = ''+'' \<or> ([]::string) = ''-''" by simp
  have h4: "''123'' \<noteq> []" by simp
  have h5: "list_all isdigit ''123''" by (simp add: isdigit_def)
  have h6: "no_fraction ''abc''" by (simp add: no_fraction_def isdigit_def)
  have v: "signed_value [] ''123'' = 123"
    by (simp add: signed_value_def decimal_value_def digit_value_def)
  have h7: "settimeofday_ok nominal_platform \<lparr>tv_sec = 123, tv_usec = 0\<rparr>"
    by (simp add: nominal_platform_def)
  have w: "(word_of_int 123 :: 64 word) = 123" by simp
  have r: "- (2 ^ 63) \<le> (123::int)" "(123::int) < 2 ^ 63" by simp_all
  note t = integer_line_is_time_sync [OF h1 h2 h3 h4 h5, of nominal_platform boot_console_state,
      unfolded v w]
  show ?thesis
    using h1 h2 h5 h6 h7 v r t by blast
qed

section \<open>Classification of well-formed commands\<close>

lemma isdigit_tolower: "isdigit c \<Longrightarrow> tolower c = c"
  by (auto simp: isdigit_def tolower_def)

lemma strcasecmp_same: "map tolower a = map tolower b \<Longrightarrow> strcasecmp a b = 0"
  by (induction a b rule: strcasecmp.induct) auto

lemma strncmp_zero_take:
  "list_all (\<lambda>c. c \<noteq> CHR 0x00) b \<Longrightarrow> strncmp a b (length b) = 0 \<Longrightarrow> take (length b) a = b"
proof (induction b arbitrary: a)
  case Nil
  then show ?case by simp
next
  case (Cons x xs)
  then have nz: "of_char x \<noteq> (0::nat)" by (cases x) auto
  show ?case
  proof (cases a)
    case Nil
    with Cons.prems nz show ?thesis by simp
  next
    case (Cons y ys)
    with Cons.prems Cons.IH [of ys] show ?thesis
      by (auto split: if_splits)
  qed
qed

lemma begins_with_integer_has_digit:
  assumes "begins_with_integer s"
  shows "\<exists>c \<in> set s. isdigit c"
proof -
  have sub: "set (dropWhile isspace s) \<subseteq> set s"
    by (auto dest: set_dropWhileD)
  from assms obtain c where "c \<in> set (dropWhile isspace s)" and "isdigit c"
    by (auto simp: begins_with_integer_def split: list.splits)
  with sub show ?thesis by auto
qed

lemma set_trim_whitespace: "set (trim_whitespace s) \<subseteq> set s"
  by (auto simp: trim_whitespace_def Let_def dest: in_set_takeD set_dropWhileD)

lemma command_word_classify:
  assumes "length l \<le> 511" and "command_word l"
  shows "classify_command (Some l) = CMD_TYPE_HELP
         \<or> classify_command (Some l) = CMD_TYPE_SYSTEM_INFO"
proof -
  define t where "t = trim_whitespace l"
  define w where "w = map tolower t"
  from assms(2) have w: "w = ''help'' \<or> w = ''?'' \<or> w = ''status'' \<or> w = ''info''"
    by (simp add: command_word_def w_def t_def)
  have no_digit: "\<not> isdigit c" if "c \<in> set t" for c
  proof
    assume "isdigit c"
    with that have "c \<in> set w" and "isdigit c"
      using isdigit_tolower [of c] by (auto simp: w_def intro: rev_image_eqI)
    with w show False by (auto simp: isdigit_def)
  qed
  then have nb: "\<not> begins_with_integer t"
    using begins_with_integer_has_digit [of t] by blast
  have len: "length t \<le> 6"
    using w by (auto simp: w_def dest: arg_cong [where f = length])
  then have np: "\<not> prefix ''SYNC_TIME:'' t"
    by (auto dest: prefix_length_le)
  from nb np have nv: "\<not> validate_timestamp_format (Some t)"
    by (simp add: validate_iff numeric_timestamp_input_def)
  have nc: "strncmp t ''CSI_'' 4 \<noteq> 0"
  proof
    assume "strncmp t ''CSI_'' 4 = 0"
    moreover have "length ''CSI_'' = 4" by simp
    ultimately have "strncmp t ''CSI_'' (length ''CSI_'') = 0" by (simp only:)
    then have "take (length ''CSI_'') t = ''CSI_''"
      by (intro strncmp_zero_take) simp_all
    then have "CHR ''_'' \<in> set (take (length ''CSI_'') t)" by simp
    then have "CHR ''_'' \<in> set t" by (rule in_set_takeD)
    then have "tolower CHR ''_'' \<in> set w" by (simp add: w_def)
    with w show False by (auto simp: tolower_def)
  qed
  have lower: "map tolower ''help'' = ''help''" "map tolower ''?'' = ''?''"
    "map tolower ''status'' = ''status''" "map tolower ''info'' = ''info''"
    by (simp_all add: tolower_def)
  from w have "strcasecmp t ''help'' = 0 \<or> strcasecmp t ''?'' = 0
               \<or> strcasecmp t ''status'' = 0 \<or> strcasecmp t ''info'' = 0"
    using lower by (auto simp: w_def intro: strcasecmp_same)
  with nv nc show ?thesis
    using assms(1)
    by (auto simp: classify_command_def MAX_COMMAND_LENGTH_def t_def [symmetric])
qed

lemma decimal_pair_shape:
  assumes "decimal_pair t"
  obtains a u where "t = a @ CHR ''.'' # u" and "a \<noteq> []" and "list_all isdigit a"
    and "u \<noteq> []" and "list_all isdigit u"
proof -
  from assms obtain u where d: "dropWhile isdigit t = CHR ''.'' # u"
    and u: "u \<noteq> []" "list_all isdigit u" and a: "takeWhile isdigit t \<noteq> []"
    by (auto simp: decimal_pair_def split: list.splits)
  have "t = takeWhile isdigit t @ dropWhile isdigit t" by simp
  with d have "t = takeWhile isdigit t @ CHR ''.'' # u" by simp
  moreover have "list_all isdigit (takeWhile isdigit t)"
    by (auto simp: list_all_iff dest: set_takeWhileD)
  ultimately show ?thesis using that a u by blast
qed

lemma decimal_pair_begins_with_integer: "decimal_pair t \<Longrightarrow> begins_with_integer t"
proof -
  assume "decimal_pair t"
  then obtain a u where t: "t = a @ CHR ''.'' # u" and a: "a \<noteq> []" "list_all isdigit a"
    by (rule decimal_pair_shape)
  show ?thesis
    unfolding t
    using signed_digits_begin_with_integer [of "[]" a "CHR ''.'' # u"] a by simp
qed

lemma time_sync_line_cases:
  assumes "time_sync_line l"
  obtains "decimal_pair (trim_whitespace l)"
  | r where "trim_whitespace l = ''SYNC_TIME: '' @ r" and "decimal_pair r"
proof -
  from assms consider "decimal_pair (trim_whitespace l)"
    | "prefix ''SYNC_TIME: '' (trim_whitespace l)" "decimal_pair (drop 11 (trim_whitespace l))"
    by (auto simp: time_sync_line_def Let_def)
  then show ?thesis
  proof cases
    case 1
    then show ?thesis by (rule that(1))
  next
    case 2
    from 2(1) obtain r where r: "trim_whitespace l = ''SYNC_TIME: '' @ r"
      by (auto simp: prefix_def)
    with 2(2) have "decimal_pair r" by simp
    with r show ?thesis by (rule that(2))
  qed
qed

lemma begins_with_integer_after_space:
  "begins_with_integer (CHR '' '' # r) = begins_with_integer r"
  by (simp add: begins_with_integer_def isspace_def)

lemma time_sync_line_numeric:
  assumes "time_sync_line l"
  shows "numeric_timestamp_input (trim_whitespace l)"
  using assms
proof (cases rule: time_sync_line_cases)
  case 1
  then show ?thesis
    by (simp add: numeric_timestamp_input_def decimal_pair_begins_with_integer)
next
  case (2 r)
  then have "begins_with_integer (drop 10 (trim_whitespace l))"
    by (simp add: decimal_pair_begins_with_integer begins_with_integer_after_space)
  moreover have "prefix ''SYNC_TIME:'' (trim_whitespace l)" using 2(1) by simp
  ultimately show ?thesis by (simp add: numeric_timestamp_input_def)
qed

lemma time_sync_line_classify:
  assumes "length l \<le> 511" and "time_sync_line l"
  shows "classify_command (Some l) = CMD_TYPE_TIME_SYNC"
  using assms(1) time_sync_line_numeric [OF assms(2)]
  by (simp add: classify_command_def MAX_COMMAND_LENGTH_def validate_iff)

text \<open>
  The dispatcher scans the line as it was typed. The scan skips white space in front of an
  integer, but not in front of the literal prefix.
\<close>

lemma time_sync_line_parse:
  assumes "time_sync_line l" and "\<not> padded_sync_time l"
  shows "parse_success (parse_timestamp_string (Some l))"
proof -
  obtain ws where d: "dropWhile isspace l = trim_whitespace l @ ws" and ws: "list_all isspace ws"
    by (rule trim_whitespace_decomp)
  from assms(1) have "numeric_timestamp_input l"
  proof (cases rule: time_sync_line_cases)
    case 1
    then have "begins_with_integer l"
      using begins_with_integer_trim [of l] by (simp add: decimal_pair_begins_with_integer)
    then show ?thesis by (simp add: numeric_timestamp_input_def)
  next
    case (2 r)
    then have "prefix ''SYNC_TIME:'' (trim_whitespace l)" by simp
    with assms(2) have p: "prefix ''SYNC_TIME:'' l" by (simp add: padded_sync_time_def)
    then obtain q where q: "l = ''SYNC_TIME:'' @ q" by (auto simp: prefix_def)
    then have "dropWhile isspace l = l" by (simp add: isspace_def)
    with d 2(1) have l: "l = ''SYNC_TIME: '' @ r @ ws" by simp
    have "begins_with_integer (r @ ws) = begins_with_integer r"
      by (rule begins_with_integer_append_spaces [OF ws])
    with 2(2) have "begins_with_integer (r @ ws)"
      by (simp add: decimal_pair_begins_with_integer)
    then have "begins_with_integer (drop 10 l)"
      unfolding l by (simp add: begins_with_integer_after_space)
    with p show ?thesis by (simp add: numeric_timestamp_input_def)
  qed
  then show ?thesis by (simp add: parse_success_iff)
qed


section \<open>The handled-command counter\<close>

lemma execute_help_effect:
  "commands_processed (g_cmd_processor (snd (execute_classified_command p l CMD_TYPE_HELP s)))
     = commands_processed (g_cmd_processor s) + 1
   \<and> diagnostics (snd (execute_classified_command p l CMD_TYPE_HELP s)) = diagnostics s"
  by (simp add: execute_classified_command_def display_help_information_def printf_def
      diagnostics_def)

lemma execute_status_effect:
  "commands_processed (g_cmd_processor
     (snd (execute_classified_command p l CMD_TYPE_SYSTEM_INFO s)))
     = commands_processed (g_cmd_processor s) + 1
   \<and> diagnostics (snd (execute_classified_command p l CMD_TYPE_SYSTEM_INFO s)) = diagnostics s"
  by (simp add: execute_classified_command_def display_system_status_def printf_def
      diagnostics_def Let_def split: option.splits)

lemma execute_time_sync_effect:
  assumes "parse_success (parse_timestamp_string (Some l))" and "\<forall>tv. settimeofday_ok p tv"
  shows "commands_processed (g_cmd_processor
           (snd (execute_classified_command p l CMD_TYPE_TIME_SYNC s)))
           = commands_processed (g_cmd_processor s) + 1
         \<and> diagnostics (snd (execute_classified_command p l CMD_TYPE_TIME_SYNC s))
           = diagnostics s"
  using assms
  by (simp add: execute_classified_command_def synchronize_system_time_def printf_def
      diagnostics_def Let_def)

lemma execute_unknown_effect:
  "commands_processed (g_cmd_processor
     (snd (execute_classified_command p l CMD_TYPE_UNKNOWN s)))
     = commands_processed (g_cmd_processor s)
   \<and> diagnostics (snd (execute_classified_command p l CMD_TYPE_UNKNOWN s)) = diagnostics s + 1"
  by (simp add: execute_classified_command_def printf_def diagnostics_def)

lemma well_formed_not_unknown:
  assumes "length l \<le> 511" and "well_formed_command l"
  shows "\<not> unknown_command l"
  using assms command_word_classify [OF assms(1)] time_sync_line_classify [OF assms(1)]
  by (auto simp: well_formed_command_def unknown_command_def)

lemma dispatch_effect:
  assumes "length l \<le> 511"
    and "(well_formed_command l \<and> \<not> padded_sync_time l) \<or> unknown_command l"
    and "\<forall>tv. settimeofday_ok p tv"
  shows "commands_processed (g_cmd_processor
           (snd (execute_classified_command p l (classify_command (Some l)) s)))
           = commands_processed (g_cmd_processor s) + (if well_formed_command l then 1 else 0)
         \<and> diagnostics (snd (execute_classified_command p l (classify_command (Some l)) s))
           = diagnostics s + (if unknown_command l then 1 else 0)"
proof (cases "well_formed_command l")
  case True
  then have nu: "\<not> unknown_command l" by (rule well_formed_not_unknown [OF assms(1)])
  with assms(2) have np: "\<not> padded_sync_time l" by simp
  from True consider "command_word l" | "time_sync_line l"
    by (auto simp: well_formed_command_def)
  then show ?thesis
  proof cases
    case 1
    from command_word_classify [OF assms(1) 1] True nu show ?thesis
      using execute_help_effect [of p l s] execute_status_effect [of p l s] by auto
  next
    case 2
    from time_sync_line_classify [OF assms(1) 2] True nu show ?thesis
      using execute_time_sync_effect [OF time_sync_line_parse [OF 2 np] assms(3), of s] by auto
  qed
next
  case False
  with assms(2) have u: "unknown_command l" by simp
  then have "classify_command (Some l) = CMD_TYPE_UNKNOWN" by (simp add: unknown_command_def)
  with False u show ?thesis
    using execute_unknown_effect [of p l s] by simp
qed

lemma reset_buffer_fields:
  "commands_processed (g_cmd_processor (reset_buffer s)) = commands_processed (g_cmd_processor s)"
  "diagnostics (reset_buffer s) = diagnostics s"
  "command_buffer (g_cmd_processor (reset_buffer s)) = []"
  by (simp_all add: reset_buffer_def diagnostics_def)

lemma buffer_update_fields:
  "commands_processed (g_cmd_processor
     (s\<lparr>g_cmd_processor := (g_cmd_processor s)\<lparr>command_buffer := l\<rparr>\<rparr>))
     = commands_processed (g_cmd_processor s)"
  "diagnostics (s\<lparr>g_cmd_processor := (g_cmd_processor s)\<lparr>command_buffer := l\<rparr>\<rparr>)
     = diagnostics s"
  by (simp_all add: diagnostics_def)

text \<open>
  On lines that are well-formed commands without white space in front of \<open>SYNC_TIME:\<close>,
  or unknown commands, the counter grows by the number of well-formed commands (in the
  counter's 32-bit arithmetic) and one diagnostic is printed for each unknown command.
\<close>

lemma typed_lines_counts:
  assumes "list_all (\<lambda>l. console_line l \<and>
                          ((well_formed_command l \<and> \<not> padded_sync_time l) \<or> unknown_command l)) lines"
    and "\<forall>tv. settimeofday_ok p tv"
    and "command_buffer (g_cmd_processor s) = []"
  shows "commands_processed (g_cmd_processor (scan_for_input_data p (typed_lines lines) s))
           = commands_processed (g_cmd_processor s)
             + of_nat (length (filter well_formed_command lines))
         \<and> diagnostics (scan_for_input_data p (typed_lines lines) s)
           = diagnostics s + length (filter unknown_command lines)"
  using assms(1,3)
proof (induction lines arbitrary: s)
  case Nil
  then show ?case by (simp add: typed_lines_def)
next
  case (Cons l lines)
  from Cons.prems(1) have cl: "console_line l"
    and kind: "(well_formed_command l \<and> \<not> padded_sync_time l) \<or> unknown_command l"
    and rest: "list_all (\<lambda>l. console_line l \<and>
                 ((well_formed_command l \<and> \<not> padded_sync_time l) \<or> unknown_command l)) lines"
    by simp_all
  from cl have len: "length l \<le> 511" by (simp add: console_line_def)
  let ?s1 = "s\<lparr>g_cmd_processor := (g_cmd_processor s)\<lparr>command_buffer := l\<rparr>\<rparr>"
  let ?s2 = "reset_buffer (snd (execute_classified_command p l (classify_command (Some l)) ?s1))"
  have step: "scan_for_input_data p (typed_lines (l # lines)) s
                = scan_for_input_data p (typed_lines lines) ?s2"
    using scan_line [OF cl Cons.prems(2), of p "typed_lines lines"]
    by (simp add: typed_lines_def)
  have eff: "commands_processed (g_cmd_processor ?s2)
               = commands_processed (g_cmd_processor s) + (if well_formed_command l then 1 else 0)"
    "diagnostics ?s2 = diagnostics s + (if unknown_command l then 1 else 0)"
    using dispatch_effect [OF len kind assms(2), of ?s1]
    by (simp_all add: reset_buffer_fields buffer_update_fields)
  have buf: "command_buffer (g_cmd_processor ?s2) = []" by (rule reset_buffer_fields(3))
  from Cons.IH [OF rest buf] show ?case
    unfolding step eff by simp
qed

text \<open>
  Claim C3 fails on a time-sync command with white space in front of \<open>SYNC_TIME:\<close>.
  The line \<open> SYNC_TIME: 5.5\<close> is a well-formed time-sync command: the classifier trims
  it and classifies it as one. The dispatcher then scans the untrimmed buffer, where neither
  format matches, so the command is not handled: after the line the counter of the booted
  console is still 0, no diagnostic for an unknown command was printed, and the clock is not
  synchronised. The same command without the leading space is counted.
\<close>

theorem padded_sync_time_is_not_counted:
  "console_line '' SYNC_TIME: 5.5''
   \<and> well_formed_command '' SYNC_TIME: 5.5''
   \<and> classify_command (Some '' SYNC_TIME: 5.5'') = CMD_TYPE_TIME_SYNC
   \<and> commands_processed (g_cmd_processor
        (scan_for_input_data nominal_platform (typed_lines ['' SYNC_TIME: 5.5''])
           boot_console_state)) = 0
   \<and> diagnostics (scan_for_input_data nominal_platform (typed_lines ['' SYNC_TIME: 5.5''])
                     boot_console_state) = 0
   \<and> \<not> time_sync_established
          (scan_for_input_data nominal_platform (typed_lines ['' SYNC_TIME: 5.5''])
             boot_console_state)
   \<and> commands_processed (g_cmd_processor
        (scan_for_input_data nominal_platform (typed_lines [''SYNC_TIME: 5.5''])
           boot_console_state)) = 1"
  by code_simp

section \<open>Lengths of formatted numbers\<close>

lemma dec_nat_length: "0 < k \<Longrightarrow> n < 10 ^ k \<Longrightarrow> length (dec_nat n) \<le> k"
proof (induction k arbitrary: n)
  case 0
  then show ?case by simp
next
  case (Suc k)
  show ?case
  proof (cases "n < 10")
    case True
    then show ?thesis by (simp add: dec_nat.simps)
  next
    case False
    with Suc.prems have k: "0 < k" by (cases k) auto
    from Suc.prems have "n div 10 < 10 ^ k" by (simp add: less_mult_imp_div_less)
    from Suc.IH [OF k this] False show ?thesis
      by (subst dec_nat.simps) simp
  qed
qed

lemma dec_nat_nonempty: "1 \<le> length (dec_nat n)"
  by (subst dec_nat.simps) simp

lemma dec_int_length:
  assumes "0 < k" and "\<bar>i\<bar> < 10 ^ k"
  shows "length (dec_int i) \<le> Suc k"
proof -
  have "nat \<bar>i\<bar> < 10 ^ k"
    using assms(2) by (metis nat_less_iff abs_ge_zero of_nat_numeral of_nat_power)
  then have "length (dec_nat (nat \<bar>i\<bar>)) \<le> k" by (rule dec_nat_length [OF assms(1)])
  then show ?thesis by (auto simp: dec_int_def abs_if split: if_splits)
qed

lemma dec_int_sint32_length: "length (dec_int (sint (w :: 32 word))) \<le> 11"
proof -
  have "\<bar>sint w\<bar> < 10 ^ 10"
    using sint_ge [of w] sint_lt [of w] by simp
  then show ?thesis using dec_int_length [of 10 "sint w"] by simp
qed

lemma dec_int_sint64_length: "length (dec_int (sint (w :: 64 word))) \<le> 20"
proof -
  have "\<bar>sint w\<bar> < 10 ^ 19"
    using sint_ge [of w] sint_lt [of w] by simp
  then show ?thesis using dec_int_length [of 19 "sint w"] by simp
qed

lemma dec_int_uint16_length: "length (dec_int (uint (w :: 16 word))) \<le> 5"
proof -
  have "unat w < 2 ^ 16" using unsigned_less [of w, where ?'a = nat] by simp
  then have "unat w < 10 ^ 5" by simp
  then have "length (dec_nat (unat w)) \<le> 5" by (intro dec_nat_length) simp_all
  then show ?thesis by (simp add: dec_int_def)
qed

lemma dec_int_06_sint32_length: "length (dec_int_06 (sint (w :: 32 word))) \<le> 11"
proof -
  have "\<bar>sint w\<bar> < 10 ^ 10"
    using sint_ge [of w] sint_lt [of w] by simp
  then have "nat \<bar>sint w\<bar> < 10 ^ 10"
    by (metis nat_less_iff abs_ge_zero of_nat_numeral of_nat_power)
  then have "length (dec_nat (nat \<bar>sint w\<bar>)) \<le> 10" by (intro dec_nat_length) simp_all
  then show ?thesis by (auto simp: dec_int_06_def abs_if split: if_splits)
qed

lemma timestamp_length:
  "length (case get_formatted_timestamp p of None \<Rightarrow> ''0.0'' | Some stamp \<Rightarrow> stamp) \<le> 32"
proof (cases "gettimeofday_now p")
  case None
  then show ?thesis by (simp add: get_formatted_timestamp_def)
next
  case (Some tv)
  then show ?thesis
    using dec_int_sint64_length [of "tv_sec tv"] dec_int_06_sint32_length [of "tv_usec tv"]
    by (simp add: get_formatted_timestamp_def)
qed

lemma fields_length:
  "length (concat (map (\<lambda>field. dec_int (sint (field :: 32 word)) @ '','') fs)) \<le> 12 * length fs"
proof (induction fs)
  case Nil
  then show ?case by simp
next
  case (Cons f fs)
  with dec_int_sint32_length [of f] show ?case by simp
qed

lemma record_header_length: "length (record_header p s csi_data) \<le> 302"
proof -
  have m: "length (format_mac hex2_upper (mac csi_data)) \<le> 19"
    by (simp add: format_mac_def)
  have f: "length (concat (map (\<lambda>field. dec_int (sint field) @ '','')
             (rx_ctrl_fields (rx_ctrl csi_data)))) \<le> 228"
    using fields_length [of "rx_ctrl_fields (rx_ctrl csi_data)"]
    by (simp add: rx_ctrl_fields_def)
  have y: "length (dec_int (if is_time_synchronized s then 1 else 0)) = 1"
    by (simp add: dec_int_def dec_nat.simps)
  note t = timestamp_length [of p]
  note l = dec_int_uint16_length [of "len csi_data"]
  show ?thesis
    unfolding record_header_def using m f y t l by simp
qed

section \<open>The amplitude text\<close>

lemma sqrt_bits_square: "r * r \<le> n \<Longrightarrow> sqrt_bits k n r * sqrt_bits k n r \<le> n"
  by (induction k arbitrary: r) auto

lemma fixed4_length: "d < 10000000 \<Longrightarrow> length (fixed4 d) \<le> 8"
proof -
  assume "d < 10000000"
  then have "d div 10000 < 10 ^ 3" by simp
  then have a: "length (dec_nat (d div 10000)) \<le> 3" by (intro dec_nat_length) simp_all
  have "d mod 10000 < 10 ^ 4" by simp
  then have b: "length (dec_nat (d mod 10000)) \<le> 4" by (intro dec_nat_length) simp_all
  from a b show ?thesis by (simp add: fixed4_def)
qed

lemma amplitude_text_length: "length (amplitude_text (sint (a :: 8 word)) (sint (b :: 8 word))) \<le> 9"
proof -
  define n where "n = 400000000 * nat (sint a * sint a + sint b * sint b)"
  define r where "r = sqrt_bits 24 n 0"
  have "\<bar>sint a\<bar> \<le> \<bar>128\<bar>" and "\<bar>sint b\<bar> \<le> \<bar>128\<bar>"
    using sint_ge [of a] sint_lt [of a] sint_ge [of b] sint_lt [of b] by simp_all
  then have "(sint a)\<^sup>2 \<le> 128\<^sup>2" and "(sint b)\<^sup>2 \<le> 128\<^sup>2"
    by (simp_all only: abs_le_square_iff)
  then have "sint a * sint a + sint b * sint b \<le> 32768"
    by (simp add: power2_eq_square)
  then have n: "n \<le> 13107200000000" by (simp add: n_def)
  have "r * r \<le> n" unfolding r_def by (rule sqrt_bits_square) simp
  with n have rr: "r * r \<le> 13107200000000" by simp
  have "r < 3700000"
  proof (rule ccontr)
    assume "\<not> r < 3700000"
    then have "3700000 * 3700000 \<le> r * r" by (intro mult_le_mono) simp_all
    with rr show False by simp
  qed
  then have "(r + 1) div 2 < 10000000" by simp
  then have "length (fixed4 ((r + 1) div 2)) \<le> 8" by (rule fixed4_length)
  then show ?thesis
    by (simp add: amplitude_text_def amplitude_ten_thousandths_def r_def n_def)
qed

section \<open>The record of the forwarding task\<close>

lemma snprintf_at_fits:
  assumes "offset = int (length out)" and "length out + length text < 4096"
  shows "snprintf_at (out, offset) text = Inr (out @ text, int (length (out @ text)))"
  using assms by (simp add: snprintf_at_def UDP_PAYLOAD_BUFFER_SIZE_def Let_def)

lemma amplitude_loop_result:
  assumes "offset = int (length out)" and "m = min 64 (nat n div 2)" and "i \<le> m"
    and "length out + 9 * (m - i) \<le> 4040" and "nat n \<le> length data_ptr"
  shows "amplitude_loop data_ptr n i (out, offset)
           = Inr (out @ concat (map (pair_text data_ptr) [i ..< m]),
                  int (length (out @ concat (map (pair_text data_ptr) [i ..< m]))))"
  using assms
proof (induction "m - i" arbitrary: i out offset)
  case 0
  from "0.hyps" "0.prems"(3) have "i = m" by simp
  with "0.prems"(2) have "\<not> (i < 64 \<and> int i * 2 + 1 < n)" by (auto simp: min_def split: if_splits)
  with \<open>i = m\<close> "0.prems"(1) show ?case
    by (subst amplitude_loop.simps) auto
next
  case (Suc k)
  from Suc.hyps(2) have lt: "i < m" by arith
  with Suc.prems(2) have g1: "i < 64" and g2: "int i * 2 + 1 < n" by auto
  from Suc.prems(1,4) lt have g3: "offset < UDP_PAYLOAD_BUFFER_SIZE - 50"
    by (simp add: UDP_PAYLOAD_BUFFER_SIZE_def)
  from g2 Suc.prems(5) have inb: "i * 2 + 1 < length data_ptr" by linarith
  let ?piece = "pair_text data_ptr i"
  have pl: "length ?piece \<le> 9" unfolding pair_text_def by (rule amplitude_text_length)
  with Suc.prems(4) have fit: "length out + length ?piece < 4096" by simp
  note sn = snprintf_at_fits [OF Suc.prems(1) fit]
  have k: "k = m - Suc i" using Suc.hyps(2) by simp
  have room: "length (out @ ?piece) + 9 * (m - Suc i) \<le> 4040"
    using pl Suc.prems(4) lt by simp
  have ih: "amplitude_loop data_ptr n (Suc i) (out @ ?piece, int (length (out @ ?piece)))
              = Inr ((out @ ?piece) @ concat (map (pair_text data_ptr) [Suc i ..< m]),
                     int (length ((out @ ?piece) @ concat (map (pair_text data_ptr) [Suc i ..< m]))))"
    using lt by (intro Suc.hyps(1) [OF k _ Suc.prems(2) _ room Suc.prems(5)]) simp_all
  have upt: "[i ..< m] = i # [Suc i ..< m]" using lt by (rule upt_conv_Cons)
  have "amplitude_loop data_ptr n i (out, offset)
          = (case snprintf_at (out, offset) ?piece of
               Inl e \<Rightarrow> Inl e
             | Inr position \<Rightarrow> amplitude_loop data_ptr n (Suc i) position)"
    using g1 g2 g3 inb by (subst amplitude_loop.simps) (simp add: pair_text_def)
  also have "\<dots> = amplitude_loop data_ptr n (Suc i) (out @ ?piece, int (length (out @ ?piece)))"
    by (simp only: sn sum.case)
  also note ih
  finally show ?case by (simp add: upt)
qed

lemma amplitude_loop_stops:
  "64 \<le> i \<or> n \<le> int i * 2 + 1 \<or> UDP_PAYLOAD_BUFFER_SIZE - 50 \<le> offset \<Longrightarrow>
     amplitude_loop data_ptr n i (out, offset) = Inr (out, offset)"
  by (subst amplitude_loop.simps) auto

lemma values_length:
  "length (concat (map (pair_text data_ptr) [i ..< m])) \<le> 9 * (m - i)"
proof (induction "m - i" arbitrary: i)
  case 0
  then show ?case by simp
next
  case (Suc k)
  from Suc.hyps(2) have lt: "i < m" and k: "k = m - Suc i" by arith+
  have "length (pair_text data_ptr i) \<le> 9" unfolding pair_text_def by (rule amplitude_text_length)
  with Suc.hyps(1) [OF k] lt show ?case by (simp add: upt_conv_Cons)
qed

lemma format_csi_record_result:
  assumes "unat (len csi_data) \<le> length (payload_bytes csi_data)"
  shows "format_csi_record p s csi_data
           = Inr (record_header p s csi_data @
                  concat (map (pair_text (payload_bytes csi_data))
                            [0 ..< min 64 (unat (len csi_data) div 2)]) @ '']\<newline>'')"
    and "length (record_header p s csi_data @
                  concat (map (pair_text (payload_bytes csi_data))
                            [0 ..< min 64 (unat (len csi_data) div 2)]) @ '']\<newline>'') \<le> 880"
proof -
  let ?h = "record_header p s csi_data"
  let ?m = "min 64 (unat (len csi_data) div 2)"
  let ?v = "concat (map (pair_text (payload_bytes csi_data)) [0 ..< ?m])"
  have hl: "length ?h \<le> 302" by (rule record_header_length)
  have vl: "length ?v \<le> 9 * ?m" using values_length [of "payload_bytes csi_data" 0 ?m] by simp
  then have vl': "length ?v \<le> 576" by simp
  have start: "snprintf_at ([], 0) ?h = Inr ([] @ ?h, int (length ([] @ ?h)))"
    using hl by (intro snprintf_at_fits) simp_all
  have n: "nat (uint (len csi_data)) = unat (len csi_data)" by simp
  have loop: "amplitude_loop (payload_bytes csi_data) (uint (len csi_data)) 0
                ([] @ ?h, int (length ([] @ ?h)))
              = Inr (([] @ ?h) @ ?v, int (length (([] @ ?h) @ ?v)))"
    using hl assms by (intro amplitude_loop_result) (simp_all add: n)
  have close: "snprintf_at (([] @ ?h) @ ?v, int (length (([] @ ?h) @ ?v))) '']\<newline>''
                 = Inr ((([] @ ?h) @ ?v) @ '']\<newline>'',
                        int (length ((([] @ ?h) @ ?v) @ '']\<newline>'')))"
    using hl vl' by (intro snprintf_at_fits) simp_all
  show "format_csi_record p s csi_data = Inr (?h @ ?v @ '']\<newline>'')"
    unfolding format_csi_record_def payload_bytes_def [symmetric]
    by (simp only: start sum.case loop close prod.case) simp
  show "length (?h @ ?v @ '']\<newline>'') \<le> 880"
    using hl vl' by simp
qed


text \<open>
  Claim C4. For every sample whose payload holds the reported number of bytes, the
  forwarding task leaves in the output buffer the header, the amplitude texts of the first
  \<open>min 64 (len div 2)\<close> pairs, and the closing bracket and line feed; this record is
  shorter than the buffer of 4096 bytes. The pair loop adds nothing once the pair index has
  reached 64, once the pair lies beyond the reported length, or once the offset is within 50
  bytes of the buffer size.
\<close>

theorem record_fits_payload_buffer:
  assumes "unat (len csi_data) \<le> length (payload_bytes csi_data)"
  shows "format_csi_record p s csi_data
           = Inr (record_header p s csi_data @
                  concat (map (pair_text (payload_bytes csi_data))
                            [0 ..< min 64 (unat (len csi_data) div 2)]) @ '']\<newline>'')
         \<and> int (length (record_header p s csi_data @
                  concat (map (pair_text (payload_bytes csi_data))
                            [0 ..< min 64 (unat (len csi_data) div 2)]) @ '']\<newline>''))
             < UDP_PAYLOAD_BUFFER_SIZE
         \<and> (64 \<le> i \<or> n \<le> int i * 2 + 1 \<or> UDP_PAYLOAD_BUFFER_SIZE - 50 \<le> offset \<longrightarrow>
              amplitude_loop data_ptr n i (out, offset) = Inr (out, offset))"
  using format_csi_record_result [OF assms, of p s] amplitude_loop_stops [of i n offset data_ptr out]
  by (simp add: UDP_PAYLOAD_BUFFER_SIZE_def)

section \<open>Evaluation of the formatter on a sample\<close>

lemma sqrt_bits_numeral:
  "sqrt_bits (numeral v) n r =
     (if (r + 2 ^ pred_numeral v) * (r + 2 ^ pred_numeral v) \<le> n
      then sqrt_bits (pred_numeral v) n (r + 2 ^ pred_numeral v)
      else sqrt_bits (pred_numeral v) n r)"
  by (simp add: numeral_eq_Suc)

lemma sqrt_bits_one: "sqrt_bits 1 n r = (if (r + 1) * (r + 1) \<le> n then r + 1 else r)"
  using sqrt_bits.simps(2) [of 0 n r] by simp

lemma replicate_numeral: "replicate (numeral k) x = x # replicate (pred_numeral k) x"
  by (simp add: numeral_eq_Suc)

lemma amplitude_text_3_4: "amplitude_text 3 4 = ''5.0000 ''"
  by (simp add: amplitude_text_def amplitude_ten_thousandths_def sqrt_bits_numeral sqrt_bits_one
      fixed4_def dec_nat.simps digit_char_def replicate_numeral)

lemma sample_a_values:
  "concat (map (pair_text (payload_bytes sample_a)) [0 ..< min 64 (unat (len sample_a) div 2)])
     = ''5.0000 ''"
proof -
  have "[0 ..< min 64 (unat (len sample_a) div 2)] = [0]"
    by (simp add: sample_a_def)
  moreover have "pair_text (payload_bytes sample_a) 0 = amplitude_text 3 4"
    by (simp add: pair_text_def payload_bytes_def sample_a_def)
  ultimately show ?thesis by (simp add: amplitude_text_3_4)
qed

lemma sample_a_header:
  "record_header nominal_platform s sample_a
     = ''CSI_Data,AP,A0:B7:65:5A:08:A5,-60,11,1,7,1,0,1,0,0,0,0,-95,0,6,0,123456,0,100,0,'' @
       (if time_sync_established s then ''1'' else ''0'') @ '',0.000000,2,[''"
  by (simp add: record_header_def sample_a_def nominal_platform_def format_mac_def hex2_upper_def
      hex_digit_upper_def rx_ctrl_fields_def dec_int_def dec_nat.simps digit_char_def
      is_time_synchronized_def get_formatted_timestamp_def dec_int_06_def replicate_numeral)

text \<open>
  The record of the sample of device A, formatted on the booted console, and the loop at
  the pair behind the two reported bytes.
\<close>

theorem record_fits_payload_buffer_witness:
  "unat (len sample_a) \<le> length (payload_bytes sample_a)
   \<and> format_csi_record nominal_platform boot_console_state sample_a
       = Inr (''CSI_Data,AP,A0:B7:65:5A:08:A5,-60,11,1,7,1,0,1,0,0,0,0,-95,0,6,0,123456,0,100,0,'' @
              ''0,0.000000,2,[5.0000 ]\<newline>'')
   \<and> amplitude_loop (payload_bytes sample_a) 2 1 (''['', 1) = Inr (''['', 1)"
proof -
  have h: "unat (len sample_a) \<le> length (payload_bytes sample_a)"
    by (simp add: sample_a_def payload_bytes_def)
  have f: "\<not> time_sync_established boot_console_state"
    by (simp add: boot_console_state_def)
  have stop: "(64::nat) \<le> 1 \<or> (2::int) \<le> int 1 * 2 + 1 \<or> UDP_PAYLOAD_BUFFER_SIZE - 50 \<le> 1"
    by simp
  show ?thesis
    using h f stop
      record_fits_payload_buffer [OF h, of nominal_platform boot_console_state 1 2 1
        "payload_bytes sample_a" "''[''"]
    by (simp add: sample_a_values sample_a_header)
qed

section \<open>Processing mode\<close>

text \<open>
  The forwarding task never reads the configured mode: its record is the same whatever
  \<open>set_csi_processing_mode\<close> stores. That function has no caller in the sources.
\<close>

lemma format_csi_record_ignores_mode:
  "format_csi_record p (set_csi_processing_mode new_mode s) csi_data
     = format_csi_record p s csi_data"
  by (simp add: format_csi_record_def record_header_def set_csi_processing_mode_def
      is_time_synchronized_def)

text \<open>
  No console command and no poll of the monitoring loop writes the configuration, so the
  mode that \<open>app_main\<close> passes to \<open>initialize_csi_collection\<close> stays configured.
\<close>

lemma printf_config [simp]: "g_csi_config (printf text s) = g_csi_config s"
  by (simp add: printf_def)


















end
